theory Spec2Isabelle
  imports Complex_Main
begin

section \<open>Data model (types.ts)\<close>

text \<open>
  A finite JavaScript number is modelled as the real it denotes, and the integer-valued
  ones (the fist counter, shape indices, loop counters) as naturals. Rounding is written
  out where a property depends on it: the camera orbit is rounded to a double after each
  operation, and a particle coordinate is rounded to single precision when it is stored
  into the position buffer, a \<open>Float32Array\<close>. The shape generators compute with numbers
  that can be NaN or infinite.
  The fields \<open>x\<close>, \<open>y\<close>, \<open>z\<close> of a position are named \<open>pos_x\<close>, \<open>pos_y\<close>, \<open>pos_z\<close>.
\<close>

record Vec3 =
  pos_x :: real
  pos_y :: real
  pos_z :: real

record Vec2 =
  vel_x :: real
  vel_y :: real

record HandState =
  isActive :: bool
  isFist :: bool
  position :: Vec3
  velocity :: Vec2
  shapeIndex :: nat

record AppState =
  leftHand :: HandState
  rightHand :: HandState
  cameraOrbit :: real

section \<open>Rounding of numbers\<close>

text \<open>
  IEEE 754 rounding to nearest, ties to even, onto the numbers with \<open>prec\<close> significant
  bits and smallest normal exponent \<open>emin\<close>: the nearest integer with ties to the even
  one, the binary exponent of a number, the spacing of the representable numbers around
  it (which stops shrinking below \<open>2 ^ emin\<close>, where the numbers are subnormal), and the
  rounding itself. There is no largest exponent: an overflow to Infinity is not part of
  this model, and none of the operations below that are rounded can overflow from
  finite operands of moderate size.
\<close>

definition roundEven :: "real \<Rightarrow> int" where
  "roundEven x =
     (let f = \<lfloor>x\<rfloor>; r = x - of_int f
      in if r < 1 / 2 then f else if 1 / 2 < r then f + 1 else if even f then f else f + 1)"

definition exponentOf :: "real \<Rightarrow> int" where
  "exponentOf x = \<lfloor>log 2 \<bar>x\<bar>\<rfloor>"

definition ulp :: "nat \<Rightarrow> int \<Rightarrow> real \<Rightarrow> real" where
  "ulp prec emin x = 2 powi (max (exponentOf x) emin - int prec + 1)"

definition roundTo :: "nat \<Rightarrow> int \<Rightarrow> real \<Rightarrow> real" where
  "roundTo prec emin x =
     (if x = 0 then 0 else of_int (roundEven (x / ulp prec emin x)) * ulp prec emin x)"

text \<open>
  \<open>Math.fround\<close>, which is also what a store into a \<open>Float32Array\<close> does, and the
  rounding of the result of an operation on doubles. A decimal literal of the source
  denotes the double nearest to it.
\<close>

definition fround :: "real \<Rightarrow> real" where
  "fround x = roundTo 24 (- 126) x"

definition dbl :: "real \<Rightarrow> real" where
  "dbl x = roundTo 53 (- 1022) x"

section \<open>Gesture shape selector and orbit smoother (App.tsx)\<close>

definition INITIAL_HAND_STATE :: HandState where
  "INITIAL_HAND_STATE =
     \<lparr>isActive = False, isFist = False,
      position = \<lparr>pos_x = 0, pos_y = 0, pos_z = 0\<rparr>,
      velocity = \<lparr>vel_x = 0, vel_y = 0\<rparr>,
      shapeIndex = 0\<rparr>"

text \<open>
  The component state of \<open>App\<close>: the \<open>fistCount\<close> ref and the \<open>appState\<close> hook.
\<close>

record Session =
  fistCount :: nat
  appState :: AppState

definition initialSession :: Session where
  "initialSession =
     \<lparr>fistCount = 0,
      appState = \<lparr>leftHand = INITIAL_HAND_STATE, rightHand = INITIAL_HAND_STATE,
                  cameraOrbit = 0\<rparr>\<rparr>"

text \<open>
  In the orbit smoother every arithmetic operation is followed by its rounding to a
  double.
\<close>

text \<open>
  \<open>updateHand\<close> with the shared counter threaded through: it takes the counter, the
  tracker's sample for the hand (\<open>None\<close> for \<open>null\<close>) and the hand's previous state, and
  returns the counter and the hand's new state.
\<close>

definition updateHand :: "nat \<Rightarrow> HandState option \<Rightarrow> HandState \<Rightarrow> nat \<times> HandState" where
  "updateHand fc current prevHand =
     (case current of
        Some cur \<Rightarrow>
          if isFist cur \<and> \<not> isFist prevHand
          then (let fc' = fc + 1 in (fc', cur\<lparr>shapeIndex := (fc' - 1) mod 65\<rparr>))
          else (fc, cur\<lparr>shapeIndex := shapeIndex prevHand\<rparr>)
      | None \<Rightarrow> (fc, INITIAL_HAND_STATE))"

type_synonym trackerUpdate = "HandState option \<times> HandState option"

definition handleHandUpdate :: "Session \<Rightarrow> trackerUpdate \<Rightarrow> Session" where
  "handleHandUpdate s u =
     (let prev = appState s;
          (fc1, lh) = updateHand (fistCount s) (fst u) (leftHand prev);
          (fc2, rh) = updateHand fc1 (snd u) (rightHand prev);
          (targetOrbit1, activeCount1) =
             (if isActive lh then (dbl (0 + pos_x (position lh)), Suc 0) else (0, 0));
          (targetOrbit2, activeCount2) =
             (if isActive rh then (dbl (targetOrbit1 + pos_x (position rh)), Suc activeCount1)
              else (targetOrbit1, activeCount1));
          orbit =
             (if activeCount2 > 0
              then dbl (dbl (cameraOrbit prev * dbl 0.94) +
                        dbl (dbl (dbl (targetOrbit2 / real activeCount2) * dbl 0.4) * dbl 0.06))
              else dbl (cameraOrbit prev * dbl 0.96))
      in \<lparr>fistCount = fc2,
          appState = \<lparr>leftHand = lh, rightHand = rh, cameraOrbit = orbit\<rparr>\<rparr>)"

text \<open>A session is the tracker's callbacks applied in order.\<close>

fun run :: "Session \<Rightarrow> trackerUpdate list \<Rightarrow> Session" where
  "run s [] = s"
| "run s (u # us) = run (handleHandUpdate s u) us"

text \<open>
  The selector's test for a fist-close: the hand is present, its sample is a fist, and
  its previous state is not a fist.
\<close>

definition fistClose :: "HandState option \<Rightarrow> HandState \<Rightarrow> bool" where
  "fistClose current prevHand =
     (case current of Some cur \<Rightarrow> isFist cur \<and> \<not> isFist prevHand | None \<Rightarrow> False)"

text \<open>
  The shape indices handed out along a session, in the order of the fist-closes: within
  one callback the left hand is updated before the right hand.
\<close>

fun assigned :: "Session \<Rightarrow> trackerUpdate list \<Rightarrow> nat list" where
  "assigned s [] = []"
| "assigned s (u # us) =
     (let s' = handleHandUpdate s u in
        (if fistClose (fst u) (leftHand (appState s))
         then [shapeIndex (leftHand (appState s'))] else []) @
        (if fistClose (snd u) (rightHand (appState s))
         then [shapeIndex (rightHand (appState s'))] else []) @
        assigned s' us)"


section \<open>The tracker's samples (HandTracker.tsx)\<close>

text \<open>
  The hand state that \<open>hands.onResults\<close> builds for a detected hand, from the fist
  classification and the wrist landmark. A hand that is not detected is \<open>null\<close>.
\<close>

definition trackerSample :: "bool \<Rightarrow> real \<Rightarrow> real \<Rightarrow> HandState" where
  "trackerSample fist wrist_x wrist_y =
     \<lparr>isActive = True, isFist = fist,
      position = \<lparr>pos_x = (0.5 - wrist_x) * 8.5, pos_y = (0.5 - wrist_y) * 6,
                  pos_z = (if fist then 0.5 else 0)\<rparr>,
      velocity = \<lparr>vel_x = 0, vel_y = 0\<rparr>,
      shapeIndex = 0\<rparr>"

section \<open>The shape library (HologramScene.tsx)\<close>

definition PARTICLE_COUNT :: nat where
  "PARTICLE_COUNT = 4000"

subsection \<open>The generators\<close>

text \<open>
  \<open>Math.random\<close> is a stream: \<open>rng k\<close> is the value of the \<open>k\<close>-th call a generator makes
  (counted from 0), and each loop threads the number of calls made so far. A buffer is
  the list of the entries of the \<open>Float32Array\<close>, which is created zeroed and of fixed
  size: a write beyond its end is ignored, as list update is. The result is \<open>None\<close>
  when a generator stores an undefined value, which the typed array holds as NaN.
\<close>

type_synonym rng = "nat \<Rightarrow> real"

type_synonym vec = "real \<times> real \<times> real"

text \<open>The components \<open>v.x\<close>, \<open>v.y\<close>, \<open>v.z\<close> of a vector.\<close>

fun vx :: "vec \<Rightarrow> real" where
  "vx (a, b, c) = a"

fun vy :: "vec \<Rightarrow> real" where
  "vy (a, b, c) = b"

fun vz :: "vec \<Rightarrow> real" where
  "vz (a, b, c) = c"

definition zeros :: "real list" where
  "zeros = replicate (PARTICLE_COUNT * 3) 0"

text \<open>The three writes \<open>pts[idx] = x; pts[idx + 1] = y; pts[idx + 2] = z\<close>.\<close>

definition put3 :: "nat \<Rightarrow> real \<Rightarrow> real \<Rightarrow> real \<Rightarrow> real list \<Rightarrow> real list" where
  "put3 idx x y z pts = pts[idx := x, idx + 1 := y, idx + 2 := z]"

text \<open>
  What the generators take from the three.js library: the position array of a geometry,
  and the rotations of a vector. \<open>MathUtils.lerp\<close> is the library's linear interpolation.
\<close>

datatype Geometry =
    IcosahedronGeometry real nat
  | TorusGeometry real real nat nat
  | BoxGeometry real real real nat nat nat
  | DodecahedronGeometry real nat
  | TorusKnotGeometry real real nat nat
  | SphereGeometry real nat nat
  | CapsuleGeometry real real nat nat
  | OctahedronGeometry real nat

record Three =
  positionArray :: "Geometry \<Rightarrow> real list"
  applyEuler :: "vec \<Rightarrow> vec \<Rightarrow> vec"
  applyAxisAngle :: "vec \<Rightarrow> vec \<Rightarrow> real \<Rightarrow> vec"
  normalize_vec :: "vec \<Rightarrow> vec"


text \<open>
  Copying vertex \<open>src\<close> of a position array into particle slot \<open>dst\<close>: reading past the
  end of the array yields undefined.
\<close>

definition copyVertex :: "real list \<Rightarrow> nat \<Rightarrow> nat \<Rightarrow> real list \<Rightarrow> real list option" where
  "copyVertex pos srcIdx idx pts =
     (if srcIdx + 2 < length pos
      then Some (put3 idx (pos ! srcIdx) (pos ! (srcIdx + 1)) (pos ! (srcIdx + 2)) pts)
      else None)"

text \<open>
  \<open>getMeshPoints\<close>: a position array has three entries per vertex, so \<open>pos.length / 3\<close>
  is the number of vertices; with no vertex the remainder \<open>i % count\<close> is NaN and the
  read is undefined.
\<close>

definition getMeshPoints :: "real list \<Rightarrow> real list option" where
  "getMeshPoints pos =
     (let count = length pos div 3 in
      fold (\<lambda>i res.
              case res of
                None \<Rightarrow> None
              | Some result \<Rightarrow>
                  if count = 0 then None
                  else copyVertex pos ((i mod count) * 3) (i * 3) result)
           [0..<PARTICLE_COUNT] (Some zeros))"













text \<open>
  The point \<open>(r sin t cos p, r sin t sin p, r cos t)\<close> that many generators store, written
  into the slot of particle \<open>i\<close>.
\<close>

definition putSphere :: "nat \<Rightarrow> real \<Rightarrow> real \<Rightarrow> real \<Rightarrow> real list \<Rightarrow> real list" where
  "putSphere i r t p pts = put3 (i * 3) (r * sin t * cos p) (r * sin t * sin p) (r * cos t) pts"



































text \<open>
  The fractal tree. The stack is a list whose head is the top (\<open>push\<close> and \<open>pop\<close> work
  on the head), the nodes are in the order of their \<open>push\<close>. An entry of the stack is
  \<open>(p, dir, len, depth)\<close>.
\<close>

definition treeChild :: "Three \<Rightarrow> rng \<Rightarrow> nat \<Rightarrow> vec \<Rightarrow> vec \<Rightarrow> real \<Rightarrow> nat \<Rightarrow> nat
    \<Rightarrow> vec \<times> vec \<times> real \<times> nat" where
  "treeChild three rng k nextP dir len depth j =
     (let axis = normalize_vec three (rng (k + 4 * j), rng (k + 4 * j + 1), rng (k + 4 * j + 2));
          nextDir = applyAxisAngle three dir axis (0.5 + rng (k + 4 * j + 3) * 0.5)
      in (nextP, nextDir, len * 0.7, depth + 1))"

function treeLoop :: "Three \<Rightarrow> rng \<Rightarrow> vec list \<Rightarrow> (vec \<times> vec \<times> real \<times> nat) list \<Rightarrow> nat
    \<Rightarrow> vec list \<times> nat" where
  "treeLoop three rng nodes stack k =
     (if stack \<noteq> [] \<and> length nodes < 100 then
        (let p = fst (hd stack); dir = fst (snd (hd stack));
             len = fst (snd (snd (hd stack))); depth = snd (snd (snd (hd stack)))
         in if depth > 5 then treeLoop three rng nodes (tl stack) k
            else
              let nextP = (vx p + vx dir * len, vy p + vy dir * len, vz p + vz dir * len);
                  count = 2 + nat \<lfloor>rng k * 2\<rfloor>
              in treeLoop three rng (nodes @ [nextP])
                   (rev (map (treeChild three rng (k + 1) nextP dir len depth) [0..<count])
                      @ tl stack)
                   (k + 1 + 4 * count))
      else (nodes, k))"
  by pat_completeness auto
termination
  by (relation "inv_image (measure (\<lambda>n. 100 - n) <*lex*> measure id)
                  (\<lambda>(three, rng, nodes, stack, k). (length nodes, length stack))")
     auto














subsection \<open>The library\<close>

text \<open>
  The generators by name, and what a call of each returns. The \<open>shapes\<close> memo pushes the
  result of one call after another onto a list: \<open>shapeCalls\<close> is that sequence of calls,
  in the order of the \<open>list.push\<close> lines, and the library is its image under whatever the
  calls return. In the program all calls draw from the one stream of \<open>Math.random\<close>,
  each from where the previous one stopped; here each is given a stream of its own.
\<close>

datatype Generator =
    MeshPoints Geometry
  | Crystalline | OrbitingRings | DoubleHelix | Mechanical | FractalLattice
  | SacredGeometry | Vortex | Molecule | Cityscape | Tesseract | NeuralNetwork
  | DigitalSingularity | CyberEye | CrystallineFlower | InterferenceWave | VoxelMonolith
  | RibbonSpiral | GeometricGeode | QuantumEntanglement | StarGate | PyramidFractal
  | DNALattice | Supernova | HyperCore | SpikyUrchin | DataStream | WarpTunnel
  | FloatingIslands | AuraShield | CyberDisc | MobiusStrip | VoronoiShell | BinaryPillar
  | MagneticField | HelixSphere | PulsarCore | DigitalWeb | ExplodedCube | CloverKnot
  | KleinBottle | Hyperboloid | FractalTree | GalacticSpiral | Calyx | Gyroid
  | SierpinskiCube | NautilusShell | RibbonKnot | DataFountain | LORDx


definition shapeCalls :: "Generator list" where
  "shapeCalls =
     [MeshPoints (IcosahedronGeometry 0.7 1), MeshPoints (TorusGeometry 0.6 0.1 8 32),
      MeshPoints (BoxGeometry 0.8 0.8 0.8 6 6 6), MeshPoints (DodecahedronGeometry 0.8 0),
      Crystalline, OrbitingRings, MeshPoints (TorusKnotGeometry 0.5 0.12 128 16),
      DoubleHelix, Mechanical, FractalLattice, SacredGeometry,
      MeshPoints (SphereGeometry 0.7 32 32), Vortex, Molecule, Cityscape,
      MeshPoints (CapsuleGeometry 0.4 0.8 8 32), MeshPoints (OctahedronGeometry 0.8 2),
      Tesseract, NeuralNetwork, DigitalSingularity, CyberEye, CrystallineFlower,
      InterferenceWave, VoxelMonolith, RibbonSpiral, GeometricGeode, QuantumEntanglement,
      StarGate, PyramidFractal, DNALattice, Supernova, HyperCore, SpikyUrchin, DataStream,
      WarpTunnel, FloatingIslands, AuraShield,
      Crystalline, OrbitingRings, DoubleHelix, Mechanical, FractalLattice,
      CyberDisc, MobiusStrip, VoronoiShell, BinaryPillar, MagneticField, HelixSphere,
      PulsarCore, DigitalWeb, ExplodedCube, CloverKnot,
      KleinBottle, Hyperboloid, FractalTree, GalacticSpiral, Calyx, Gyroid,
      SierpinskiCube, NautilusShell, RibbonKnot, DataFountain]"

definition shapes :: "(Generator \<Rightarrow> 'a) \<Rightarrow> 'a list" where
  "shapes gen = map gen shapeCalls"

text \<open>
  The engine's lookup \<open>shapes[hand.shapeIndex % shapes.length]\<close> followed by
  \<open>if (target)\<close>: with an empty list the remainder is NaN and the element is undefined.
\<close>

definition targetLookup :: "'a list \<Rightarrow> nat \<Rightarrow> 'a option" where
  "targetLookup shs idx = (if shs = [] then None else Some (shs ! (idx mod length shs)))"

section \<open>The morph engine (HandParticles in HologramScene.tsx)\<close>

text \<open>
  The per-hand animation state: the two refs (which are null until the component is
  mounted), the position buffer, the per-particle speeds, the shimmer and previous-fist
  refs, and the fields of the mesh and the material that the frame callback writes.
\<close>

record MorphState =
  meshAttached :: bool
  matAttached :: bool
  pos :: "real list"
  lerpSpeeds :: "real list"
  shimmerValue :: real
  prevIsFist :: bool
  matSize :: real
  matOpacity :: real
  meshPosition :: Vec3
  rotationY :: real
  visible :: bool
  needsUpdate :: bool

record FrameProps =
  hand :: HandState
  otherHand :: HandState
  libraryShapes :: "real list list"
  isShowingText :: bool
  textShape :: "real list"

text \<open>
  The update rule \<open>p += (t - p) * s\<close> on one coordinate of the mesh's anchor, over the
  reals.
\<close>

definition lerpToward :: "real \<Rightarrow> real \<Rightarrow> real \<Rightarrow> real" where
  "lerpToward p t s = p + (t - p) * s"

text \<open>
  The update rule \<open>pos[j] += (t - pos[j]) * s\<close> on one entry of the position buffer: the
  subtraction, the multiplication and the addition are operations on doubles, and the
  store into the \<open>Float32Array\<close> rounds the sum to single precision.
\<close>

definition lerpStore :: "real \<Rightarrow> real \<Rightarrow> real \<Rightarrow> real" where
  "lerpStore p t s = fround (dbl (p + dbl (dbl (t - p) * s)))"

text \<open>One iteration of a particle loop: the three coordinates of particle \<open>i\<close>.\<close>

definition moveParticle :: "nat \<Rightarrow> real \<Rightarrow> real \<Rightarrow> real \<Rightarrow> real \<Rightarrow> real list \<Rightarrow> real list" where
  "moveParticle i tx ty tz s ps =
     (let ps1 = ps[i * 3 := lerpStore (ps ! (i * 3)) tx s];
          ps2 = ps1[i * 3 + 1 := lerpStore (ps1 ! (i * 3 + 1)) ty s]
      in ps2[i * 3 + 2 := lerpStore (ps2 ! (i * 3 + 2)) tz s])"

text \<open>
  The locked-shape loop, where the factor of particle \<open>i\<close> is \<open>lerpSpeeds[i]\<close>, and the
  overlay loop, where it is \<open>lerpSpeeds[i] * 1.5\<close>: \<open>factor\<close> is what the loop makes of the
  particle's speed.
\<close>

definition morphToward :: "real list \<Rightarrow> (real \<Rightarrow> real) \<Rightarrow> real list \<Rightarrow> real list \<Rightarrow> real list" where
  "morphToward target factor speeds ps =
     fold (\<lambda>i ps. moveParticle i (target ! (i * 3)) (target ! (i * 3 + 1)) (target ! (i * 3 + 2))
                     (factor (speeds ! i)) ps)
          [0..<PARTICLE_COUNT] ps"

text \<open>The ambient cloud: distance of the hands in the x-y plane, spread, and the loop.\<close>

definition handDist :: "HandState \<Rightarrow> HandState \<Rightarrow> real" where
  "handDist h other =
     sqrt ((pos_x (position h) - pos_x (position other))\<^sup>2 +
           (pos_y (position h) - pos_y (position other))\<^sup>2)"

definition spread :: "HandState \<Rightarrow> HandState \<Rightarrow> real" where
  "spread h other =
     (if isActive other \<and> \<not> isFist other then 1.0 + min (handDist h other * 0.5) 3.0 else 1.0)"

definition cloudStep :: "real \<Rightarrow> real \<Rightarrow> nat \<Rightarrow> real list \<Rightarrow> real list" where
  "cloudStep time spr i ps =
     (let seed = real i * 0.42;
          tx = sin (seed + time * 0.35) * 1.8 * spr;
          ty = cos (seed * 0.85 + time * 0.45) * 1.8 * spr;
          tz = sin (seed * 1.15 + time * 0.25) * 1.2;
          driftX = sin (time * 0.15 + seed * 2) * 0.15;
          driftY = cos (time * 0.2 + seed * 3) * 0.15;
          driftZ = sin (time * 0.1 + seed * 1.5) * 0.15
      in moveParticle i (tx + driftX) (ty + driftY) (tz + driftZ) (dbl 0.05) ps)"

definition cloudLoop :: "real \<Rightarrow> real \<Rightarrow> real list \<Rightarrow> real list" where
  "cloudLoop time spr ps = fold (cloudStep time spr) [0..<PARTICLE_COUNT] ps"

text \<open>
  The frame callback of one hand: \<open>time\<close> is the clock's elapsed time and \<open>delta\<close> the
  time since the previous frame. The shimmer, the material, the anchor and the rotation
  are computed over the reals; the entries of the position buffer are rounded as they
  are stored.
\<close>

definition useFrame :: "FrameProps \<Rightarrow> real \<Rightarrow> real \<Rightarrow> MorphState \<Rightarrow> MorphState" where
  "useFrame props time delta st =
     (if \<not> meshAttached st \<or> \<not> matAttached st then st
      else
        let h = hand props;
            shimmer0 = (if isFist h \<and> \<not> prevIsFist st then 1.0 else shimmerValue st);
            shimmer = max 0 (shimmer0 - delta * 2.5);
            anchor = meshPosition st;
            st1 = st\<lparr>prevIsFist := isFist h,
                     shimmerValue := shimmer,
                     matSize := 0.014 * (1.0 + shimmer * 1.5),
                     matOpacity := 0.85 + shimmer * 0.15,
                     meshPosition :=
                       \<lparr>pos_x = lerpToward (pos_x anchor) (pos_x (position h)) 0.15,
                        pos_y = lerpToward (pos_y anchor) (pos_y (position h)) 0.15,
                        pos_z = lerpToward (pos_z anchor) (pos_z (position h)) 0.15\<rparr>,
                     rotationY := rotationY st + delta * 0.4\<rparr>
        in
          if \<not> isActive h then st1\<lparr>visible := False\<rparr>
          else
            let ps = pos st;
                ps' =
                  (if isFist h then
                     (case targetLookup (libraryShapes props) (shapeIndex h) of
                        Some target \<Rightarrow> morphToward target (\<lambda>s. s) (lerpSpeeds st) ps
                      | None \<Rightarrow> ps)
                   else if isShowingText props then
                     morphToward (textShape props) (\<lambda>s. dbl (s * 1.5)) (lerpSpeeds st) ps
                   else cloudLoop time (spread h (otherHand props)) ps)
            in st1\<lparr>visible := True, pos := ps', needsUpdate := True\<rparr>)"

text \<open>
  A run of frames: for each frame the props of the render, the clock's elapsed time and
  the time since the previous frame.
\<close>

fun frames :: "(FrameProps \<times> real \<times> real) list \<Rightarrow> MorphState \<Rightarrow> MorphState" where
  "frames [] st = st"
| "frames ((props, time, delta) # fs) st = frames fs (useFrame props time delta st)"

text \<open>
  The state of a mounted \<open>HandParticles\<close> before its first frame: a zeroed buffer, the
  speeds drawn at construction, and the defaults of the mesh and of the material.
\<close>

definition initialMorph :: "real list \<Rightarrow> MorphState" where
  "initialMorph speeds =
     \<lparr>meshAttached = True, matAttached = True,
      pos = replicate (PARTICLE_COUNT * 3) 0,
      lerpSpeeds = speeds,
      shimmerValue = 0, prevIsFist = False,
      matSize = 0.014, matOpacity = 0.85,
      meshPosition = \<lparr>pos_x = 0, pos_y = 0, pos_z = 0\<rparr>,
      rotationY = 0, visible = True, needsUpdate = False\<rparr>"

text \<open>
  A particle as a point of space, the step of the update rule on a point, and the
  Euclidean distance of two points.
\<close>

definition particle :: "real list \<Rightarrow> nat \<Rightarrow> real \<times> real \<times> real" where
  "particle buf i = (buf ! (i * 3), buf ! (i * 3 + 1), buf ! (i * 3 + 2))"

fun lerpParticle :: "real \<times> real \<times> real \<Rightarrow> real \<times> real \<times> real \<Rightarrow> real \<Rightarrow> real \<times> real \<times> real" where
  "lerpParticle (px, py, pz) (tx, ty, tz) s =
     (lerpStore px tx s, lerpStore py ty s, lerpStore pz tz s)"



section \<open>The overlay scheduler (HologramScene in HologramScene.tsx)\<close>

text \<open>
  The effect that shows the text overlay from time to time. The state of the scheduler
  is the time of the last event (in milliseconds since the component was mounted), the
  overlay flag, the pending timer (its callback and the time at which it fires) and
  the numbers of calls of \<open>setTimeout\<close> and of \<open>Math.random\<close> made so far. The timers
  are a parameter: the \<open>n\<close>-th timer that is set fires \<open>late n\<close> milliseconds after its
  delay has passed. A state update takes effect at the time of the callback that makes
  it. The delay is computed in doubles.
\<close>

datatype Callback = ShowText | HideText

record Overlay =
  clock :: real
  showing :: bool
  pending :: "(Callback \<times> real) option"
  timersSet :: nat
  drawsMade :: nat

text \<open>\<open>15000 + Math.random() * 30000\<close>, with the \<open>k\<close>-th draw of the stream.\<close>

definition overlayDelay :: "rng \<Rightarrow> nat \<Rightarrow> real" where
  "overlayDelay rng k = dbl (15000 + dbl (rng k * 30000))"

definition setTimeout :: "(nat \<Rightarrow> real) \<Rightarrow> Callback \<Rightarrow> real \<Rightarrow> Overlay \<Rightarrow> Overlay" where
  "setTimeout late callback delay ov =
     ov\<lparr>pending := Some (callback, clock ov + delay + late (timersSet ov)),
        timersSet := timersSet ov + 1\<rparr>"

definition trigger :: "rng \<Rightarrow> (nat \<Rightarrow> real) \<Rightarrow> Overlay \<Rightarrow> Overlay" where
  "trigger rng late ov =
     (let delay = overlayDelay rng (drawsMade ov)
      in setTimeout late ShowText delay (ov\<lparr>drawsMade := drawsMade ov + 1\<rparr>))"

text \<open>
  The pending timer fires: the outer callback sets the flag and the inner timer, the
  inner callback clears the flag and calls \<open>trigger\<close> again.
\<close>

definition fire :: "rng \<Rightarrow> (nat \<Rightarrow> real) \<Rightarrow> Overlay \<Rightarrow> Overlay" where
  "fire rng late ov =
     (case pending ov of
        None \<Rightarrow> ov
      | Some (ShowText, due) \<Rightarrow> setTimeout late HideText 3000 (ov\<lparr>clock := due, showing := True\<rparr>)
      | Some (HideText, due) \<Rightarrow> trigger rng late (ov\<lparr>clock := due, showing := False\<rparr>))"

text \<open>The effect runs \<open>trigger\<close> once when the component is mounted.\<close>

definition mountOverlay :: "rng \<Rightarrow> (nat \<Rightarrow> real) \<Rightarrow> Overlay" where
  "mountOverlay rng late =
     trigger rng late
       \<lparr>clock = 0, showing = False, pending = None, timersSet = 0, drawsMade = 0\<rparr>"

text \<open>The scheduler after \<open>n\<close> firings of a timer.\<close>

fun overlayAfter :: "rng \<Rightarrow> (nat \<Rightarrow> real) \<Rightarrow> nat \<Rightarrow> Overlay" where
  "overlayAfter rng late 0 = mountOverlay rng late"
| "overlayAfter rng late (Suc n) = fire rng late (overlayAfter rng late n)"

section \<open>Vocabulary of the properties\<close>

text \<open>
  Whether the tracker's sample for a hand is an active hand, the x-positions of the
  active hands of an update, and their average as the orbit smoother computes it: the
  sum from 0, each addition and the division rounded to a double.
\<close>

definition activeSample :: "HandState option \<Rightarrow> bool" where
  "activeSample current = (case current of Some cur \<Rightarrow> isActive cur | None \<Rightarrow> False)"

definition activeXs :: "trackerUpdate \<Rightarrow> real list" where
  "activeXs u =
     (case fst u of Some l \<Rightarrow> if isActive l then [pos_x (position l)] else [] | None \<Rightarrow> []) @
     (case snd u of Some r \<Rightarrow> if isActive r then [pos_x (position r)] else [] | None \<Rightarrow> [])"

definition average :: "real list \<Rightarrow> real" where
  "average xs = dbl (foldl (\<lambda>acc x. dbl (acc + x)) 0 xs / real (length xs))"


definition isDouble :: "real \<Rightarrow> bool" where
  "isDouble x \<longleftrightarrow> dbl x = x"



text \<open>Sample updates: a closed and an open left hand in the middle of the image.\<close>

definition closeLeft :: trackerUpdate where
  "closeLeft = (Some (trackerSample True 0.5 0.5), None)"

definition openLeft :: trackerUpdate where
  "openLeft = (Some (trackerSample False 0.5 0.5), None)"

definition openLeftCloseRight :: trackerUpdate where
  "openLeftCloseRight = (Some (trackerSample False 0.5 0.5), Some (trackerSample True 0.25 0.5))"

definition noHands :: trackerUpdate where
  "noHands = (None, None)"

text \<open>
  An open left hand at the left edge of the image, whose x-position is 4.25, and a
  session whose orbit has decayed to 12 times the smallest positive double.
\<close>

definition edgeLeft :: trackerUpdate where
  "edgeLeft = (Some (trackerSample False 0 0.5), None)"

definition stalledSession :: Session where
  "stalledSession =
     initialSession\<lparr>appState := (appState initialSession)\<lparr>cameraOrbit := 12 * 2 powi (- 1074)\<rparr>\<rparr>"


text \<open>
  Sample frames: props with an absent hand, a closed hand, a closed hand with a library
  of one shape, all of whose coordinates are 4, and two open hands.
\<close>

definition inactiveProps :: FrameProps where
  "inactiveProps =
     \<lparr>hand = INITIAL_HAND_STATE, otherHand = INITIAL_HAND_STATE, libraryShapes = [],
      isShowingText = False, textShape = []\<rparr>"

definition fistProps :: FrameProps where
  "fistProps =
     \<lparr>hand = trackerSample True 0.5 0.5, otherHand = INITIAL_HAND_STATE, libraryShapes = [],
      isShowingText = False, textShape = []\<rparr>"


definition openProps :: FrameProps where
  "openProps =
     \<lparr>hand = trackerSample False 0.5 0.5, otherHand = trackerSample False 0.5 0.5,
      libraryShapes = [], isShowingText = False, textShape = []\<rparr>"

text \<open>
  Timers that fire exactly when their delay has passed, and two streams of draws: one
  whose first draw is the largest double below 1, and one that starts with a half and a
  quarter.
\<close>

definition idealTimers :: "nat \<Rightarrow> real" where
  "idealTimers n = 0"

definition largestDrawFirst :: rng where
  "largestDrawFirst k = (if k = 0 then 1 - 1 / 2 ^ 53 else 1 / 2)"

definition halfQuarter :: rng where
  "halfQuarter k = (if k = 0 then 1 / 2 else 1 / 4)"

text \<open>
  Whether, along a run of frames, the hand's fist flag flips from false to true on some
  frame: \<open>prev\<close> is the flag that the engine recorded on the frame before the run.
\<close>

fun fistFlips :: "bool \<Rightarrow> (FrameProps \<times> real \<times> real) list \<Rightarrow> bool" where
  "fistFlips prev [] \<longleftrightarrow> False"
| "fistFlips prev ((props, time, delta) # fs) \<longleftrightarrow>
     (isFist (hand props) \<and> \<not> prev) \<or> fistFlips (isFist (hand props)) fs"

text \<open>An engine state whose shimmer is at its peak and whose anchor is away from the origin.\<close>

definition movedMorph :: MorphState where
  "movedMorph =
     (initialMorph [])\<lparr>shimmerValue := 1, meshPosition := \<lparr>pos_x = 2, pos_y = 0, pos_z = 0\<rparr>\<rparr>"

text \<open>
  The draws of \<open>Math.random\<close> lie in [0, 1). The position array of a mesh geometry has
  three entries for each of its vertices, and at least one vertex.
\<close>

definition validDraws :: "rng \<Rightarrow> bool" where
  "validDraws rng \<longleftrightarrow> (\<forall>k. 0 \<le> rng k \<and> rng k < 1)"







section \<open>Rounding: the nearest number and its error\<close>

lemma roundEven_of_int: "roundEven (of_int n) = n"
  by (simp add: roundEven_def)

lemma roundEven_cases:
  obtains "roundEven x = \<lfloor>x\<rfloor>" and "x - of_int \<lfloor>x\<rfloor> \<le> 1 / 2"
  | "roundEven x = \<lfloor>x\<rfloor> + 1" and "1 / 2 \<le> x - of_int \<lfloor>x\<rfloor>"
proof (cases "x - of_int \<lfloor>x\<rfloor> < 1 / 2")
  case True
  then have "roundEven x = \<lfloor>x\<rfloor>" by (simp add: roundEven_def Let_def)
  with True that(1) show ?thesis by simp
next
  case a: False
  show ?thesis
  proof (cases "1 / 2 < x - of_int \<lfloor>x\<rfloor>")
    case True
    then have "roundEven x = \<lfloor>x\<rfloor> + 1" using a by (simp add: roundEven_def Let_def)
    with True that(2) show ?thesis by simp
  next
    case False
    then have e: "x - of_int \<lfloor>x\<rfloor> = 1 / 2" using a by simp
    show ?thesis
    proof (cases "even \<lfloor>x\<rfloor>")
      case True
      then have "roundEven x = \<lfloor>x\<rfloor>" using e by (simp add: roundEven_def Let_def)
      with e that(1) show ?thesis by simp
    next
      case False
      then have "roundEven x = \<lfloor>x\<rfloor> + 1" using e by (simp add: roundEven_def Let_def)
      with e that(2) show ?thesis by simp
    qed
  qed
qed

lemma roundEven_lower: "x - 1 / 2 \<le> of_int (roundEven x)"
proof (cases x rule: roundEven_cases)
  case 1 then show ?thesis by simp
next
  case 2
  have "x < of_int \<lfloor>x\<rfloor> + 1" by linarith
  then show ?thesis unfolding 2(1) by linarith
qed

lemma roundEven_upper: "of_int (roundEven x) \<le> x + 1 / 2"
proof (cases x rule: roundEven_cases)
  case 1
  have "of_int \<lfloor>x\<rfloor> \<le> x" by simp
  then show ?thesis unfolding 1(1) by linarith
next
  case 2 then show ?thesis by simp
qed

lemma roundEven_floor_le: "\<lfloor>x\<rfloor> \<le> roundEven x"
  by (cases x rule: roundEven_cases) simp_all

lemma roundEven_le_ceil: "roundEven x \<le> \<lfloor>x\<rfloor> + 1"
  by (cases x rule: roundEven_cases) simp_all


lemma roundEven_mono:
  assumes "x \<le> y" shows "roundEven x \<le> roundEven y"
proof (cases "\<lfloor>x\<rfloor> = \<lfloor>y\<rfloor>")
  case True
  show ?thesis
  proof (cases x rule: roundEven_cases)
    case 1
    then show ?thesis using roundEven_floor_le [of y] True by simp
  next
    case x2: 2
    show ?thesis
    proof (cases y rule: roundEven_cases)
      case 1
      then have "x - of_int \<lfloor>x\<rfloor> = 1 / 2" "y = x" using x2 True assms by simp_all
      then show ?thesis by simp
    next
      case 2
      then show ?thesis using x2 True by simp
    qed
  qed
next
  case False
  then have "\<lfloor>x\<rfloor> + 1 \<le> \<lfloor>y\<rfloor>" using floor_mono [OF assms] by linarith
  then show ?thesis using roundEven_le_ceil [of x] roundEven_floor_le [of y] by linarith
qed

lemma roundEven_minus: "roundEven (- x) = - roundEven x"
proof (cases "x = of_int \<lfloor>x\<rfloor>")
  case True
  then obtain n :: int where "x = of_int n" ..
  then show ?thesis using roundEven_of_int [of n] roundEven_of_int [of "- n"] by simp
next
  case False
  then have "of_int \<lfloor>x\<rfloor> < x" using of_int_floor_le [of x] by linarith
  moreover have "x < of_int \<lfloor>x\<rfloor> + 1" by linarith
  ultimately have f: "\<lfloor>- x\<rfloor> = - \<lfloor>x\<rfloor> - 1"
    by (intro floor_unique) linarith+
  have r: "- x - of_int (- \<lfloor>x\<rfloor> - 1) = 1 - (x - of_int \<lfloor>x\<rfloor>)" by simp
  show ?thesis
    unfolding roundEven_def [of "- x"] roundEven_def [of x] Let_def f r
    by (simp add: field_simps)
qed

lemma exponentOf_iff:
  "x \<noteq> 0 \<Longrightarrow> exponentOf x = e \<longleftrightarrow> 2 powi e \<le> \<bar>x\<bar> \<and> \<bar>x\<bar> < 2 powi (e + 1)"
  unfolding exponentOf_def
  using floor_log_eq_powr_iff [of "\<bar>x\<bar>" 2 e] powr_real_of_int' [of 2 e]
        powr_real_of_int' [of 2 "e + 1"]
  by simp

lemma exponentOf_lower: "x \<noteq> 0 \<Longrightarrow> 2 powi exponentOf x \<le> \<bar>x\<bar>"
  using exponentOf_iff [of x "exponentOf x"] by simp

lemma exponentOf_upper: "x \<noteq> 0 \<Longrightarrow> \<bar>x\<bar> < 2 powi (exponentOf x + 1)"
  using exponentOf_iff [of x "exponentOf x"] by simp

lemma exponentOf_minus: "exponentOf (- x) = exponentOf x"
  by (simp add: exponentOf_def)

lemma powi2_less_imp: "(2::real) powi a < 2 powi b \<Longrightarrow> a < b"
proof (rule ccontr)
  assume l: "(2::real) powi a < 2 powi b" and "\<not> a < b"
  then have "b \<le> a" by simp
  then have "(2::real) powi b \<le> 2 powi a" by (intro power_int_increasing) simp_all
  with l show False by simp
qed

lemma exponentOf_mono:
  assumes "x \<noteq> 0" "\<bar>x\<bar> \<le> \<bar>y\<bar>" shows "exponentOf x \<le> exponentOf y"
proof -
  have y: "y \<noteq> 0" using assms by auto
  have "2 powi exponentOf x \<le> \<bar>x\<bar>" using exponentOf_lower [OF assms(1)] .
  also have "\<dots> \<le> \<bar>y\<bar>" by fact
  also have "\<dots> < 2 powi (exponentOf y + 1)" using exponentOf_upper [OF y] .
  finally have "exponentOf x < exponentOf y + 1" by (rule powi2_less_imp)
  then show ?thesis by simp
qed

lemma powi2_le_abs_nonzero:
  assumes "2 powi e \<le> \<bar>x\<bar>" shows "x \<noteq> (0::real)"
proof
  assume "x = 0"
  with assms have "(2::real) powi e \<le> 0" by simp
  moreover have "0 < (2::real) powi e" by simp
  ultimately show False by linarith
qed

lemma exponentOf_ge:
  assumes "2 powi e \<le> \<bar>x\<bar>" shows "e \<le> exponentOf x"
proof -
  have x: "x \<noteq> 0" using powi2_le_abs_nonzero [OF assms] .
  have "2 powi e < (2::real) powi (exponentOf x + 1)"
    using assms exponentOf_upper [OF x] by simp
  then have "e < exponentOf x + 1" by (rule powi2_less_imp)
  then show ?thesis by simp
qed

lemma exponentOf_less:
  assumes "x \<noteq> 0" "\<bar>x\<bar> < 2 powi e" shows "exponentOf x < e"
proof -
  have "(2::real) powi exponentOf x < 2 powi e"
    using assms exponentOf_lower [OF assms(1)] by simp
  then show ?thesis by (rule powi2_less_imp)
qed

lemma ulp_pos: "0 < ulp prec emin x"
  by (simp add: ulp_def)

lemma ulp_minus: "ulp prec emin (- x) = ulp prec emin x"
  by (simp add: ulp_def exponentOf_minus)

lemma roundTo_0: "roundTo prec emin 0 = 0"
  by (simp add: roundTo_def)

lemma roundTo_minus: "roundTo prec emin (- x) = - roundTo prec emin x"
  by (simp add: roundTo_def ulp_minus roundEven_minus)

lemma roundTo_nonneg:
  assumes "0 \<le> x" shows "0 \<le> roundTo prec emin x"
proof (cases "x = 0")
  case True then show ?thesis by (simp add: roundTo_def)
next
  case False
  have "0 \<le> x / ulp prec emin x" using assms ulp_pos [of prec emin x] by simp
  then have "roundEven 0 \<le> roundEven (x / ulp prec emin x)" by (rule roundEven_mono)
  then have "0 \<le> roundEven (x / ulp prec emin x)" using roundEven_of_int [of 0] by simp
  then show ?thesis using False ulp_pos [of prec emin x] by (simp add: roundTo_def)
qed

text \<open>A value that is a multiple of a power of two no finer than its own spacing is kept.\<close>

lemma roundTo_fix:
  assumes "x = of_int n * 2 powi j" "max (exponentOf x) emin - int prec + 1 \<le> j"
  shows "roundTo prec emin x = x"
proof (cases "x = 0")
  case True then show ?thesis by (simp add: roundTo_def)
next
  case False
  define k where "k = max (exponentOf x) emin - int prec + 1"
  define u where "u = ulp prec emin x"
  have u: "u = 2 powi k" "0 < u" by (simp_all add: u_def k_def ulp_def)
  have "(2::real) powi j = 2 powi (j - k) * 2 powi k"
    by (simp flip: power_int_add)
  also have "(2::real) powi (j - k) = 2 ^ nat (j - k)"
    using assms(2) by (simp add: power_int_def k_def)
  finally have "x = of_int n * 2 ^ nat (j - k) * u"
    unfolding u(1) assms(1) by simp
  then have q: "x / u = of_int (n * 2 ^ nat (j - k))"
    using u(2) by simp
  have "roundTo prec emin x = of_int (roundEven (x / u)) * u"
    using False by (simp add: roundTo_def u_def)
  also have "\<dots> = x / u * u" unfolding q roundEven_of_int ..
  also have "\<dots> = x" using u(2) by simp
  finally show ?thesis .
qed


lemma powi2_split: "(2::real) powi (a + b) = 2 powi a * 2 powi b"
  by (simp add: power_int_add)

lemma powi2_eq: "a = b + c \<Longrightarrow> (2::real) powi a = 2 powi b * 2 powi c"
  by (simp add: power_int_add)

lemma roundTo_le_binade:
  assumes "0 < x"
  shows "roundTo prec emin x \<le> 2 powi (max (exponentOf x) emin + 1)"
proof -
  define E where "E = max (exponentOf x) emin"
  define u where "u = ulp prec emin x"
  have u: "u = 2 powi (E - int prec + 1)" "0 < u" by (simp_all add: u_def E_def ulp_def)
  have top: "(2::real) powi (E + 1) = of_int (2 ^ prec) * u"
    using powi2_split [of "int prec" "E - int prec + 1"] unfolding u(1) by simp
  have "x < 2 powi (exponentOf x + 1)" using exponentOf_upper [of x] assms by simp
  also have "\<dots> \<le> 2 powi (E + 1)" by (intro power_int_increasing) (simp_all add: E_def)
  finally have "x / u \<le> of_int (2 ^ prec)" using u(2) unfolding top by (simp add: field_simps)
  then have "roundEven (x / u) \<le> 2 ^ prec"
    using roundEven_mono [of "x / u" "of_int (2 ^ prec)"] unfolding roundEven_of_int by simp
  then have "(of_int (roundEven (x / u)) :: real) \<le> of_int (2 ^ prec)" by (simp only: of_int_le_iff)
  then have "of_int (roundEven (x / u)) * u \<le> of_int (2 ^ prec) * u"
    using u(2) by (simp only: mult_le_cancel_right_pos)
  then show ?thesis using assms unfolding top [symmetric] by (simp add: roundTo_def u_def E_def)
qed

lemma roundTo_ge_binade:
  assumes "0 < x" "1 \<le> prec" "emin \<le> exponentOf x"
  shows "2 powi exponentOf x \<le> roundTo prec emin x"
proof -
  define E where "E = exponentOf x"
  define u where "u = ulp prec emin x"
  have u: "u = 2 powi (E - int prec + 1)" "0 < u"
    using assms(3) by (simp_all add: u_def E_def ulp_def max_def)
  have "(2::real) powi (int prec - 1) = 2 ^ (prec - 1)"
    using assms(2) by (simp add: power_int_def nat_diff_distrib')
  then have bot: "(2::real) powi E = of_int (2 ^ (prec - 1)) * u"
    using powi2_split [of "int prec - 1" "E - int prec + 1"] unfolding u(1) by simp
  have "2 powi E \<le> x" using exponentOf_lower [of x] assms(1) by (simp add: E_def)
  then have "of_int (2 ^ (prec - 1)) \<le> x / u" using u(2) unfolding bot by (simp add: field_simps)
  then have "2 ^ (prec - 1) \<le> roundEven (x / u)"
    using roundEven_mono [of "of_int (2 ^ (prec - 1))" "x / u"] unfolding roundEven_of_int by simp
  then have "(of_int (2 ^ (prec - 1)) :: real) \<le> of_int (roundEven (x / u))"
    by (simp only: of_int_le_iff)
  then have "of_int (2 ^ (prec - 1)) * u \<le> of_int (roundEven (x / u)) * u"
    using u(2) by (simp only: mult_le_cancel_right_pos)
  then show ?thesis using assms(1) unfolding bot [symmetric] by (simp add: roundTo_def u_def E_def)
qed

lemma roundTo_mono_pos:
  assumes "0 < x" "x \<le> y" "1 \<le> prec"
  shows "roundTo prec emin x \<le> roundTo prec emin y"
proof -
  have y: "0 < y" using assms by simp
  have e: "exponentOf x \<le> exponentOf y" using exponentOf_mono [of x y] assms by simp
  show ?thesis
  proof (cases "max (exponentOf x) emin = max (exponentOf y) emin")
    case True
    then have u: "ulp prec emin x = ulp prec emin y" by (simp add: ulp_def)
    have "x / ulp prec emin y \<le> y / ulp prec emin y"
      using assms(2) ulp_pos [of prec emin y] by (simp add: divide_right_mono)
    then have "roundEven (x / ulp prec emin y) \<le> roundEven (y / ulp prec emin y)"
      by (rule roundEven_mono)
    then have "(of_int (roundEven (x / ulp prec emin y)) :: real)
                 \<le> of_int (roundEven (y / ulp prec emin y))" by (simp only: of_int_le_iff)
    then have "of_int (roundEven (x / ulp prec emin y)) * ulp prec emin y
                 \<le> of_int (roundEven (y / ulp prec emin y)) * ulp prec emin y"
      using ulp_pos [of prec emin y] by (simp only: mult_le_cancel_right_pos)
    then show ?thesis using assms(1) y by (simp add: roundTo_def u)
  next
    case False
    then have lt: "max (exponentOf x) emin < exponentOf y" and ge: "emin \<le> exponentOf y"
      using e by (simp_all add: max_def split: if_splits)
    have "roundTo prec emin x \<le> 2 powi (max (exponentOf x) emin + 1)"
      using roundTo_le_binade [OF assms(1)] .
    also have "\<dots> \<le> 2 powi exponentOf y"
    proof (intro power_int_increasing)
      show "max (exponentOf x) emin + 1 \<le> exponentOf y" using lt by linarith
    qed simp
    also have "\<dots> \<le> roundTo prec emin y"
      using roundTo_ge_binade [OF y assms(3) ge] .
    finally show ?thesis .
  qed
qed

lemma roundTo_mono:
  assumes "x \<le> y" "1 \<le> prec"
  shows "roundTo prec emin x \<le> roundTo prec emin y"
proof -
  consider "0 < x" | "x \<le> 0" "0 \<le> y" | "y < 0" by linarith
  then show ?thesis
  proof cases
    case 1 then show ?thesis using roundTo_mono_pos assms by simp
  next
    case 2
    have "roundTo prec emin x \<le> 0"
      using roundTo_nonneg [of "- x" prec emin] 2(1) by (simp add: roundTo_minus)
    also have "0 \<le> roundTo prec emin y" using roundTo_nonneg 2(2) by simp
    finally show ?thesis .
  next
    case 3
    have "roundTo prec emin (- y) \<le> roundTo prec emin (- x)"
      using roundTo_mono_pos [of "- y" "- x" prec emin] 3 assms by simp
    then show ?thesis by (simp add: roundTo_minus)
  qed
qed

lemma roundTo_idem_pos:
  assumes "0 < x" "1 \<le> prec"
  shows "roundTo prec emin (roundTo prec emin x) = roundTo prec emin x"
proof -
  define E where "E = max (exponentOf x) emin"
  define r where "r = roundTo prec emin x"
  have r: "r = of_int (roundEven (x / ulp prec emin x)) * 2 powi (E - int prec + 1)"
    using assms(1) by (simp add: r_def roundTo_def ulp_def E_def)
  have r0: "0 \<le> r" using roundTo_nonneg [of x] assms(1) by (simp add: r_def)
  have le: "r \<le> 2 powi (E + 1)" using roundTo_le_binade [OF assms(1)] by (simp add: r_def E_def)
  show ?thesis
  proof (cases "r = 0")
    case True then show ?thesis by (simp add: r_def [symmetric] roundTo_0)
  next
    case nz: False
    show ?thesis
    proof (cases "r < 2 powi (E + 1)")
      case True
      then have "exponentOf r < E + 1" using exponentOf_less [of r "E + 1"] nz r0 by simp
      then have "max (exponentOf r) emin - int prec + 1 \<le> E - int prec + 1"
        by (simp add: E_def)
      then show ?thesis using roundTo_fix [OF r] by (simp add: r_def)
    next
      case False
      then have eq: "r = of_int 1 * 2 powi (E + 1)" using le by simp
      have "exponentOf r = E + 1"
        using exponentOf_iff [of r "E + 1"] nz eq by (simp add: power_int_add)
      then have "max (exponentOf r) emin - int prec + 1 \<le> E + 1"
        using assms(2) by (simp add: E_def)
      then show ?thesis using roundTo_fix [OF eq] by (simp add: r_def)
    qed
  qed
qed

lemma roundTo_idem:
  assumes "1 \<le> prec"
  shows "roundTo prec emin (roundTo prec emin x) = roundTo prec emin x"
proof -
  consider "0 < x" | "x = 0" | "x < 0" by linarith
  then show ?thesis
  proof cases
    case 1 then show ?thesis using roundTo_idem_pos assms by simp
  next
    case 2 then show ?thesis by (simp add: roundTo_0)
  next
    case 3
    then have "roundTo prec emin (roundTo prec emin (- x)) = roundTo prec emin (- x)"
      using roundTo_idem_pos [of "- x"] assms by simp
    then show ?thesis by (simp add: roundTo_minus)
  qed
qed

lemma roundTo_abs_error: "\<bar>roundTo prec emin x - x\<bar> \<le> ulp prec emin x / 2"
proof (cases "x = 0")
  case True then show ?thesis using ulp_pos [of prec emin 0] by (simp add: roundTo_def)
next
  case False
  define u where "u = ulp prec emin x"
  have u: "0 < u" by (simp add: u_def ulp_pos)
  have "\<bar>of_int (roundEven (x / u)) - x / u\<bar> \<le> 1 / 2"
    using roundEven_lower [of "x / u"] roundEven_upper [of "x / u"] by linarith
  then have "\<bar>of_int (roundEven (x / u)) - x / u\<bar> * u \<le> 1 / 2 * u"
    using u by (simp only: mult_le_cancel_right_pos)
  moreover have "of_int (roundEven (x / u)) * u - x = (of_int (roundEven (x / u)) - x / u) * u"
    using u by (simp add: left_diff_distrib)
  then have "\<bar>of_int (roundEven (x / u)) * u - x\<bar> = \<bar>of_int (roundEven (x / u)) - x / u\<bar> * \<bar>u\<bar>"
    by (simp only: abs_mult)
  then have "\<bar>of_int (roundEven (x / u)) - x / u\<bar> * u = \<bar>of_int (roundEven (x / u)) * u - x\<bar>"
    using u by simp
  ultimately show ?thesis using False by (simp add: roundTo_def u_def)
qed

lemma roundTo_rel_error:
  assumes "2 powi emin \<le> \<bar>x\<bar>"
  shows "\<bar>roundTo prec emin x - x\<bar> \<le> 2 powi (- int prec) * \<bar>x\<bar>"
proof -
  have x: "x \<noteq> 0" using powi2_le_abs_nonzero [OF assms] .
  have e: "emin \<le> exponentOf x" using exponentOf_ge [OF assms] .
  then have "ulp prec emin x = 2 powi (exponentOf x - int prec + 1)"
    by (simp add: ulp_def max_def)
  also have "\<dots> = 2 powi (- int prec + 1) * 2 powi exponentOf x"
    by (rule powi2_eq) simp
  also have "(2::real) powi (- int prec + 1) = 2 powi (- int prec) * 2 powi 1"
    by (rule powi2_eq) simp
  finally have "ulp prec emin x / 2 = 2 powi (- int prec) * 2 powi exponentOf x" by simp
  also have "\<dots> \<le> 2 powi (- int prec) * \<bar>x\<bar>"
    using exponentOf_lower [OF x] by (intro mult_left_mono) simp_all
  finally show ?thesis using roundTo_abs_error [of prec emin x] by linarith
qed

lemma roundTo_grid: "\<exists>k::int. roundTo prec emin x = of_int k * 2 powi (emin - int prec + 1)"
proof (cases "x = 0")
  case True
  then have "roundTo prec emin x = of_int 0 * 2 powi (emin - int prec + 1)" by (simp add: roundTo_def)
  then show ?thesis ..
next
  case False
  define E where "E = max (exponentOf x) emin"
  have "(2::real) powi (E - int prec + 1) = 2 powi (E - emin) * 2 powi (emin - int prec + 1)"
    by (rule powi2_eq) simp
  also have "(2::real) powi (E - emin) = of_int (2 ^ nat (E - emin))"
    by (simp add: power_int_def E_def)
  finally have "roundTo prec emin x =
      of_int (roundEven (x / ulp prec emin x) * 2 ^ nat (E - emin)) * 2 powi (emin - int prec + 1)"
    using False by (simp add: roundTo_def ulp_def E_def)
  then show ?thesis ..
qed


lemma dbl_mono: "x \<le> y \<Longrightarrow> dbl x \<le> dbl y"
  unfolding dbl_def by (rule roundTo_mono) simp_all


lemma dbl_minus: "dbl (- x) = - dbl x"
  by (simp add: dbl_def roundTo_minus)

lemma dbl_0: "dbl 0 = 0"
  by (simp add: dbl_def roundTo_0)



lemma isDouble_dbl: "isDouble (dbl x)"
  unfolding isDouble_def dbl_def by (rule roundTo_idem) simp


lemma isDouble_minus: "isDouble (- x) = isDouble x"
  by (auto simp: isDouble_def dbl_minus)

lemma grid_nonzero:
  fixes x g :: real
  assumes "x = of_int k * g" "0 < g" "x \<noteq> 0" shows "g \<le> \<bar>x\<bar>"
proof -
  have "k \<noteq> 0" using assms by auto
  then have "1 \<le> \<bar>k\<bar>" by simp
  then have "(1::real) \<le> \<bar>of_int k\<bar>" by (simp only: of_int_abs [symmetric] of_int_1_le_iff)
  then have "1 * g \<le> \<bar>of_int k :: real\<bar> * g" using assms(2) by (simp only: mult_le_cancel_right_pos)
  then show ?thesis using assms(1,2) by (simp add: abs_mult)
qed


lemma isDouble_grid:
  assumes "isDouble x" shows "\<exists>k::int. x = of_int k * 2 powi (- 1074)"
  using roundTo_grid [of 53 "- 1022" x] assms by (simp add: isDouble_def dbl_def)


lemma isDouble_ge:
  assumes "isDouble x" "x \<noteq> 0" shows "2 powi (- 1074) \<le> \<bar>x\<bar>"
proof -
  obtain k :: int where "x = of_int k * 2 powi (- 1074)" using isDouble_grid [OF assms(1)] ..
  then show ?thesis using grid_nonzero [of x k "2 powi (- 1074)"] assms(2) by simp
qed














lemma roundTo_eval:
  assumes "2 powi e \<le> \<bar>x\<bar>" "\<bar>x\<bar> < 2 powi (e + 1)"
  shows "roundTo prec emin x =
           of_int (roundEven (x / 2 powi (max e emin - int prec + 1)))
             * 2 powi (max e emin - int prec + 1)"
proof -
  have x: "x \<noteq> 0" using powi2_le_abs_nonzero [OF assms(1)] .
  then have "exponentOf x = e" using exponentOf_iff [of x e] assms by simp
  then show ?thesis using x by (simp add: roundTo_def ulp_def)
qed

lemma roundEven_eval:
  "of_int f \<le> x \<Longrightarrow> x < of_int f + 1 / 2 \<Longrightarrow> roundEven x = f"
  "of_int f + 1 / 2 < x \<Longrightarrow> x < of_int f + 1 \<Longrightarrow> roundEven x = f + 1"
  "x = of_int f + 1 / 2 \<Longrightarrow> roundEven x = (if even f then f else f + 1)"
proof -
  assume a: "of_int f \<le> x" "x < of_int f + 1 / 2"
  then have "\<lfloor>x\<rfloor> = f" by (intro floor_unique) linarith+
  then show "roundEven x = f" using a by (simp add: roundEven_def Let_def)
next
  assume a: "of_int f + 1 / 2 < x" "x < of_int f + 1"
  then have "\<lfloor>x\<rfloor> = f" by (intro floor_unique) linarith+
  then show "roundEven x = f + 1" using a by (simp add: roundEven_def Let_def)
next
  assume a: "x = of_int f + 1 / 2"
  then have "\<lfloor>x\<rfloor> = f" by (intro floor_unique) linarith+
  then show "roundEven x = (if even f then f else f + 1)" using a by (simp add: roundEven_def Let_def)
qed





lemma dbl_096: "dbl (24 / 25) = 8646911284551352 / 2 ^ 53"
proof -
  have "roundEven (24 / 25 / 2 powi (- 53)) = 8646911284551352"
    by (rule roundEven_eval(1)) simp_all
  then show ?thesis
    unfolding dbl_def using roundTo_eval [of "- 1" "24 / 25" 53 "- 1022"] by simp
qed

lemma dbl_096_bounds: "1 / 2 < dbl (24 / 25)" "dbl (24 / 25) < 24 / 25"
  unfolding dbl_096 by simp_all

lemma isDouble_eq: "isDouble x \<Longrightarrow> dbl x = x"
  by (simp add: isDouble_def)

lemma scale_nonneg:
  assumes "0 \<le> x" "0 \<le> c" shows "0 \<le> dbl (x * c)"
  using dbl_mono [of 0 "x * c"] assms by (simp add: dbl_0)

lemma scale_le:
  assumes "isDouble x" "0 \<le> x" "c \<le> 1" shows "dbl (x * c) \<le> x"
proof -
  have "x * c \<le> x * 1" using assms(2,3) by (intro mult_left_mono) simp_all
  then have "dbl (x * c) \<le> dbl x" by (intro dbl_mono) simp
  then show ?thesis using assms(1) by (simp add: isDouble_def)
qed

lemma scale_minus: "dbl (- x * c) = - dbl (x * c)"
  by (simp add: dbl_minus)

lemma scale_abs_le:
  assumes "isDouble x" "0 \<le> c" "c \<le> 1" shows "\<bar>dbl (x * c)\<bar> \<le> \<bar>x\<bar>"
proof (cases "0 \<le> x")
  case True
  then show ?thesis using scale_le [OF assms(1) True assms(3)] scale_nonneg [OF True assms(2)] by simp
next
  case False
  then have n: "0 \<le> - x" by simp
  have "isDouble (- x)" using assms(1) by (simp add: isDouble_minus)
  then have "dbl (- x * c) \<le> - x" "0 \<le> dbl (- x * c)"
    using scale_le [of "- x" c] scale_nonneg [OF n assms(2)] n assms(3) by simp_all
  then show ?thesis unfolding scale_minus using False by simp
qed

lemma smallest_step:
  assumes "1 / 2 < c" "c < 1" shows "dbl (2 powi (- 1074) * c) = 2 powi (- 1074)"
proof -
  define g :: real where "g = 2 powi (- 1074)"
  have g: "0 < g" by (simp add: g_def)
  have c: "0 < c" using assms(1) by simp
  have l: "2 powi (- 1075) \<le> \<bar>g * c\<bar>"
  proof -
    have "(2::real) powi (- 1075) = g * 2 powi (- 1)" unfolding g_def by (rule powi2_eq) simp
    also have "\<dots> \<le> g * c" using g assms(1) by (intro mult_left_mono) simp_all
    finally show ?thesis using g c by (simp add: abs_mult)
  qed
  have u: "\<bar>g * c\<bar> < 2 powi (- 1075 + 1)"
  proof -
    have "g * c < g * 1" using g assms(2) by (intro mult_strict_left_mono) simp_all
    then show ?thesis using g c by (simp add: abs_mult g_def)
  qed
  have q: "g * c / g = c" using g by simp
  have "roundEven c = 0 + 1"
    using assms by (intro roundEven_eval(2)) simp_all
  then have "roundTo 53 (- 1022) (g * c) = g"
    using roundTo_eval [OF l u, of 53 "- 1022"] q unfolding g_def by simp
  then show ?thesis by (simp add: dbl_def g_def)
qed

lemma scale_pos:
  assumes "isDouble x" "0 < x" "1 / 2 < c" "c < 1" shows "0 < dbl (x * c)"
proof -
  have "2 powi (- 1074) \<le> x" using isDouble_ge [OF assms(1)] assms(2) by simp
  then have "2 powi (- 1074) * c \<le> x * c"
    using assms(3) by (intro mult_right_mono) simp_all
  then have "dbl (2 powi (- 1074) * c) \<le> dbl (x * c)" by (rule dbl_mono)
  moreover have "0 < (2::real) powi (- 1074)" by (rule zero_less_power_int) simp
  ultimately show ?thesis unfolding smallest_step [OF assms(3,4)] by linarith
qed

lemma scale_nonzero:
  assumes "isDouble x" "x \<noteq> 0" "1 / 2 < c" "c < 1" shows "dbl (x * c) \<noteq> 0"
proof (cases "0 < x")
  case True then show ?thesis using scale_pos [OF assms(1) True assms(3,4)] by simp
next
  case False
  then have "0 < - x" using assms(2) by simp
  moreover have "isDouble (- x)" using assms(1) by (simp add: isDouble_minus)
  ultimately have "0 < dbl (- x * c)" using assms(3,4) by (intro scale_pos)
  then show ?thesis unfolding scale_minus by simp
qed

lemma ulp_le_grid_or_rel:
  assumes "0 < x"
  shows "ulp 53 (- 1022) x \<le> max (2 powi (- 1074)) (2 powi (- 52) * x)"
proof (cases "- 1022 \<le> exponentOf x")
  case True
  then have "ulp 53 (- 1022) x = 2 powi (exponentOf x - 52)" by (simp add: ulp_def max_def)
  also have "\<dots> = 2 powi (- 52) * 2 powi exponentOf x" by (rule powi2_eq) simp
  also have "\<dots> \<le> 2 powi (- 52) * x"
    using exponentOf_lower [of x] assms by (intro mult_left_mono) simp_all
  finally show ?thesis by simp
next
  case False
  then have "ulp 53 (- 1022) x = 2 powi (- 1074)" by (simp add: ulp_def max_def)
  then show ?thesis by simp
qed

lemma scale_strict_pos:
  assumes "isDouble x" "13 * 2 powi (- 1074) \<le> x" "0 < c" "c < 24 / 25"
  shows "dbl (x * c) < x"
proof -
  define g :: real where "g = 2 powi (- 1074)"
  define y where "y = x * c"
  have g: "0 < g" by (simp add: g_def)
  have x: "0 < x" using assms(2) g unfolding g_def by linarith
  have y: "0 < y" "y < x * (24 / 25)" "y \<le> x"
    using x assms(3,4) by (simp_all add: y_def mult_le_cancel_left1)
  have "exponentOf y \<le> exponentOf x" using exponentOf_mono [of y x] y x by simp
  then have "ulp 53 (- 1022) y \<le> ulp 53 (- 1022) x"
    unfolding ulp_def by (intro power_int_increasing) simp_all
  also have "\<dots> \<le> max g (2 powi (- 52) * x)" unfolding g_def by (rule ulp_le_grid_or_rel [OF x])
  finally have u: "ulp 53 (- 1022) y \<le> max g (2 powi (- 52) * x)" .
  have "g / 2 < x / 25" using assms(2) g unfolding g_def by linarith
  moreover have "2 powi (- 52) * x / 2 < x / 25" using x by simp
  ultimately have "max g (2 powi (- 52) * x) / 2 < x / 25" by (simp add: max_def)
  then have "ulp 53 (- 1022) y / 2 < x / 25" using u by linarith
  moreover have "\<bar>dbl y - y\<bar> \<le> ulp 53 (- 1022) y / 2" unfolding dbl_def by (rule roundTo_abs_error)
  ultimately have "dbl y < y + x / 25" by linarith
  then show ?thesis using y(2) unfolding y_def by linarith
qed

lemma scale_strict:
  assumes "isDouble x" "13 * 2 powi (- 1074) \<le> \<bar>x\<bar>" "0 < c" "c < 24 / 25"
  shows "\<bar>dbl (x * c)\<bar> < \<bar>x\<bar>"
proof (cases "0 \<le> x")
  case True
  have "0 \<le> dbl (x * c)" using scale_nonneg [OF True] assms(3) by simp
  moreover have "dbl (x * c) < x" using assms True by (intro scale_strict_pos) simp_all
  ultimately show ?thesis using True by simp
next
  case False
  then have n: "0 \<le> - x" by simp
  have "isDouble (- x)" using assms(1) by (simp add: isDouble_minus)
  then have "dbl (- x * c) < - x" using assms False by (intro scale_strict_pos) simp_all
  moreover have "0 \<le> dbl (- x * c)" using scale_nonneg [OF n] assms(3) by simp
  ultimately show ?thesis unfolding scale_minus using False by simp
qed

lemma scale_stall:
  "dbl (12 * 2 powi (- 1074) * (8646911284551352 / 2 ^ 53)) = 12 * 2 powi (- 1074)"
proof -
  define g :: real where "g = 2 powi (- 1074)"
  define c :: real where "c = 8646911284551352 / 2 ^ 53"
  have g: "0 < g" by (simp add: g_def)
  have c: "0 < c" "8 \<le> 12 * c" "12 * c < 16" by (simp_all add: c_def)
  have l: "2 powi (- 1071) \<le> \<bar>12 * g * c\<bar>"
  proof -
    have "(2::real) powi (- 1071) = 2 powi 3 * g" unfolding g_def by (rule powi2_eq) simp
    also have "\<dots> \<le> 12 * c * g" using g c(2) by (intro mult_right_mono) simp_all
    finally show ?thesis using g c(1) by (simp add: abs_mult mult.commute mult.left_commute)
  qed
  have u: "\<bar>12 * g * c\<bar> < 2 powi (- 1071 + 1)"
  proof -
    have "12 * c * g < 2 powi 4 * g"
      using g c(3) by (intro mult_strict_right_mono) simp_all
    also have "\<dots> = 2 powi (- 1071 + 1)" unfolding g_def by (rule powi2_eq [symmetric]) simp
    finally show ?thesis using g c(1) by (simp add: abs_mult mult.commute mult.left_commute)
  qed
  have q: "12 * g * c / g = 12 * c" using g by simp
  have "roundEven (12 * c) = 11 + 1"
    unfolding c_def by (intro roundEven_eval(2)) simp_all
  then have "roundTo 53 (- 1022) (12 * g * c) = 12 * g"
    using roundTo_eval [OF l u, of 53 "- 1022"] q unfolding g_def by simp
  then show ?thesis unfolding dbl_def g_def c_def .
qed

lemma scale_rel:
  assumes "2 powi (- 1022) \<le> \<bar>x * c\<bar>" "0 < c"
  shows "\<bar>x\<bar> * c * (1 - 2 powi (- 53)) \<le> \<bar>dbl (x * c)\<bar>"
    and "\<bar>dbl (x * c)\<bar> \<le> \<bar>x\<bar> * c * (1 + 2 powi (- 53))"
proof -
  define e :: real where "e = 2 powi (- 53)"
  have "\<bar>dbl (x * c) - x * c\<bar> \<le> 2 powi (- int 53) * \<bar>x * c\<bar>"
    unfolding dbl_def using assms(1) by (rule roundTo_rel_error)
  moreover have "- int 53 = - 53" by simp
  ultimately have d: "\<bar>dbl (x * c) - x * c\<bar> \<le> e * \<bar>x * c\<bar>" unfolding e_def by (simp only:)
  have a: "\<bar>x * c\<bar> = \<bar>x\<bar> * c" using assms(2) by (simp add: abs_mult)
  have "\<bar>x * c\<bar> - e * \<bar>x * c\<bar> \<le> \<bar>dbl (x * c)\<bar>" using d by linarith
  moreover have "\<bar>x * c\<bar> - e * \<bar>x * c\<bar> = \<bar>x\<bar> * c * (1 - e)" unfolding a by (simp add: algebra_simps)
  ultimately show "\<bar>x\<bar> * c * (1 - 2 powi (- 53)) \<le> \<bar>dbl (x * c)\<bar>" unfolding e_def by simp
  have "\<bar>dbl (x * c)\<bar> \<le> \<bar>x * c\<bar> + e * \<bar>x * c\<bar>" using d by linarith
  moreover have "\<bar>x * c\<bar> + e * \<bar>x * c\<bar> = \<bar>x\<bar> * c * (1 + e)" unfolding a by (simp add: algebra_simps)
  ultimately show "\<bar>dbl (x * c)\<bar> \<le> \<bar>x\<bar> * c * (1 + 2 powi (- 53))" unfolding e_def by simp
qed

lemma dbl_abs: "dbl \<bar>y\<bar> = \<bar>dbl y\<bar>"
proof (cases "0 \<le> y")
  case True
  then show ?thesis using dbl_mono [of 0 y] by (simp add: dbl_0)
next
  case False
  then have "dbl y \<le> 0" using dbl_mono [of y 0] by (simp add: dbl_0)
  then show ?thesis using False by (simp add: dbl_minus)
qed

text \<open>
  A product that rounds to a double of magnitude at least \<open>2 ^ -1021\<close> has magnitude at
  least \<open>2 ^ -1022\<close>: it is in the normal range.
\<close>

lemma dbl_normal:
  assumes "2 powi (- 1021) \<le> \<bar>dbl y\<bar>" shows "2 powi (- 1022) \<le> \<bar>y\<bar>"
proof (rule ccontr)
  assume "\<not> 2 powi (- 1022) \<le> \<bar>y\<bar>"
  then have "\<bar>y\<bar> \<le> 2 powi (- 1022)" by simp
  then have "dbl \<bar>y\<bar> \<le> dbl (2 powi (- 1022))" by (rule dbl_mono)
  moreover have "dbl (2 powi (- 1022)) = 2 powi (- 1022)"
    unfolding dbl_def
    using roundTo_fix [of "2 powi (- 1022)" 1 "- 1022" "- 1022" 53]
          exponentOf_iff [of "2 powi (- 1022)" "- 1022"] by simp
  moreover have "(2::real) powi (- 1022) < 2 powi (- 1021)"
    by (intro power_int_strict_increasing) simp_all
  ultimately show False using assms unfolding dbl_abs by linarith
qed

section \<open>The selector, step by step\<close>

lemmas sample_defs =
  closeLeft_def openLeft_def openLeftCloseRight_def noHands_def edgeLeft_def trackerSample_def

lemma upd_simps:
  "updateHand fc None p = (fc, INITIAL_HAND_STATE)"
  "updateHand fc (Some cur) p =
     (if isFist cur \<and> \<not> isFist p then (fc + 1, cur\<lparr>shapeIndex := fc mod 65\<rparr>)
      else (fc, cur\<lparr>shapeIndex := shapeIndex p\<rparr>))"
  by (simp_all add: updateHand_def Let_def)

lemma hhu_left:
  "leftHand (appState (handleHandUpdate s u)) =
     snd (updateHand (fistCount s) (fst u) (leftHand (appState s)))"
  by (simp add: handleHandUpdate_def Let_def split: prod.splits)

lemma hhu_right:
  "rightHand (appState (handleHandUpdate s u)) =
     snd (updateHand (fst (updateHand (fistCount s) (fst u) (leftHand (appState s))))
                     (snd u) (rightHand (appState s)))"
  by (simp add: handleHandUpdate_def Let_def split: prod.splits)

lemma hhu_count:
  "fistCount (handleHandUpdate s u) =
     fst (updateHand (fst (updateHand (fistCount s) (fst u) (leftHand (appState s))))
                     (snd u) (rightHand (appState s)))"
  by (simp add: handleHandUpdate_def Let_def split: prod.splits)

lemma fc_step:
  "fistCount (handleHandUpdate s u) =
     fistCount s + (if fistClose (fst u) (leftHand (appState s)) then 1 else 0)
                 + (if fistClose (snd u) (rightHand (appState s)) then 1 else 0)"
  by (cases "fst u"; cases "snd u") (auto simp: hhu_count upd_simps fistClose_def)

lemma left_step:
  "shapeIndex (leftHand (appState (handleHandUpdate s u))) =
     (case fst u of
        None \<Rightarrow> 0
      | Some h \<Rightarrow>
          if fistClose (fst u) (leftHand (appState s)) then fistCount s mod 65
          else shapeIndex (leftHand (appState s)))"
  by (cases "fst u") (auto simp: hhu_left upd_simps fistClose_def INITIAL_HAND_STATE_def)

lemma right_step:
  "shapeIndex (rightHand (appState (handleHandUpdate s u))) =
     (case snd u of
        None \<Rightarrow> 0
      | Some h \<Rightarrow>
          if fistClose (snd u) (rightHand (appState s))
          then (fistCount s + (if fistClose (fst u) (leftHand (appState s)) then 1 else 0)) mod 65
          else shapeIndex (rightHand (appState s)))"
  by (cases "fst u"; cases "snd u")
     (auto simp: hhu_right upd_simps fistClose_def INITIAL_HAND_STATE_def)

lemma run_append: "run s (us @ vs) = run (run s us) vs"
  by (induction us arbitrary: s) simp_all

lemma map_upt_shift:
  "map f [0..<m + n] = map f [0..<m] @ map (\<lambda>k. f (m + k)) [0..<n]"
proof -
  have a: "[0..<m + n] = [0..<m] @ [m..<m + n]"
    using upt_add_eq_append [of 0 m n] by simp
  have b: "[m..<m + n] = map (\<lambda>k. m + k) [0..<n]"
    by (induction n) simp_all
  show ?thesis unfolding a b by (simp add: comp_def)
qed

lemma assigned_Cons:
  "assigned s (u # us) =
     (if fistClose (fst u) (leftHand (appState s)) then [fistCount s mod 65] else []) @
     (if fistClose (snd u) (rightHand (appState s))
      then [(fistCount s + (if fistClose (fst u) (leftHand (appState s)) then 1 else 0)) mod 65]
      else []) @
     assigned (handleHandUpdate s u) us"
  by (auto simp: Let_def left_step right_step fistClose_def split: option.splits)

text \<open>
  From any state of the session, the indices handed out continue the count where the
  shared counter stands.
\<close>

lemma assigned_from_count:
  "assigned s us = map (\<lambda>k. (fistCount s + k) mod 65) [0..<length (assigned s us)]"
proof (induction us arbitrary: s)
  case Nil
  show ?case by simp
next
  case (Cons u us)
  define a :: nat where "a = (if fistClose (fst u) (leftHand (appState s)) then 1 else 0)"
  define b :: nat where "b = (if fistClose (snd u) (rightHand (appState s)) then 1 else 0)"
  define s' where "s' = handleHandUpdate s u"
  define n where "n = length (assigned s' us)"
  have fc: "fistCount s' = fistCount s + a + b"
    by (simp add: s'_def a_def b_def fc_step)
  have tl: "assigned s' us = map (\<lambda>k. (fistCount s + (a + b + k)) mod 65) [0..<n]"
    using Cons.IH [of s'] by (simp add: n_def fc add.assoc)
  have hd: "assigned s (u # us) =
              map (\<lambda>k. (fistCount s + k) mod 65) [0..<a + b] @ assigned s' us"
    unfolding assigned_Cons by (simp add: a_def b_def s'_def)
  have len: "length (assigned s (u # us)) = (a + b) + n"
    unfolding hd by (simp add: n_def)
  have "map (\<lambda>k. (fistCount s + k) mod 65) [0..<(a + b) + n] =
        map (\<lambda>k. (fistCount s + k) mod 65) [0..<a + b] @ assigned s' us"
    unfolding map_upt_shift [of _ "a + b" n] tl [symmetric] ..
  then have "assigned s (u # us) = map (\<lambda>k. (fistCount s + k) mod 65) [0..<(a + b) + n]"
    by (simp only: hd)
  also have "\<dots> = map (\<lambda>k. (fistCount s + k) mod 65) [0..<length (assigned s (u # us))]"
    by (simp only: len)
  finally show ?case .
qed

text \<open>A left hand that closes and opens \<open>n\<close> times advances the counter by \<open>n\<close>.\<close>

lemma close_open_round:
  "\<not> isFist (leftHand (appState s)) \<Longrightarrow>
   fistCount (run s (concat (replicate n [closeLeft, openLeft]))) = fistCount s + n \<and>
   \<not> isFist (leftHand (appState (run s (concat (replicate n [closeLeft, openLeft])))))"
proof (induction n arbitrary: s)
  case 0
  then show ?case by simp
next
  case (Suc n)
  let ?s' = "handleHandUpdate (handleHandUpdate s closeLeft) openLeft"
  have a: "\<not> isFist (leftHand (appState ?s'))"
    by (simp add: hhu_left upd_simps sample_defs)
  have b: "fistCount ?s' = fistCount s + 1"
    using Suc.prems by (simp add: hhu_left hhu_count upd_simps sample_defs)
  show ?case using Suc.IH [OF a] b by simp
qed

text \<open>Each round of closing and opening the left hand is one fist-close.\<close>

lemma assigned_close_open:
  "\<not> isFist (leftHand (appState s)) \<Longrightarrow>
   length (assigned s (concat (replicate n [closeLeft, openLeft]) @ [closeLeft])) = Suc n"
proof (induction n arbitrary: s)
  case 0
  have "fistClose (fst closeLeft) (leftHand (appState s))"
    "\<not> fistClose (snd closeLeft) (rightHand (appState s))"
    using 0 by (simp_all add: fistClose_def sample_defs)
  then show ?case by (simp add: assigned_Cons del: assigned.simps(2))
next
  case (Suc n)
  let ?s' = "handleHandUpdate (handleHandUpdate s closeLeft) openLeft"
  have a: "\<not> isFist (leftHand (appState ?s'))"
    by (simp add: hhu_left upd_simps sample_defs)
  have c: "fistClose (fst closeLeft) (leftHand (appState s))"
    "\<not> fistClose (snd closeLeft) (rightHand (appState s))"
    using Suc.prems by (simp_all add: fistClose_def sample_defs)
  have o: "\<not> fistClose (fst openLeft) (leftHand (appState (handleHandUpdate s closeLeft)))"
    "\<not> fistClose (snd openLeft) (rightHand (appState (handleHandUpdate s closeLeft)))"
    by (simp_all add: fistClose_def sample_defs)
  have "assigned s (concat (replicate (Suc n) [closeLeft, openLeft]) @ [closeLeft]) =
          [fistCount s mod 65] @ assigned ?s' (concat (replicate n [closeLeft, openLeft]) @ [closeLeft])"
    using c o by (simp add: assigned_Cons del: assigned.simps(2))
  then show ?case using Suc.IH [OF a] by simp
qed

section \<open>The library and the lookup\<close>

lemma length_shapes: "length (shapes gen) = 62"
  by (simp add: shapes_def shapeCalls_def)

lemma targetLookup_shapes: "\<exists>t. targetLookup (shapes gen) idx = Some t"
  using length_shapes [of gen] by (auto simp: targetLookup_def)

section \<open>The orbit, step by step\<close>

lemma hhu_orbit_idle:
  "\<not> activeSample (fst u) \<Longrightarrow> \<not> activeSample (snd u) \<Longrightarrow>
   cameraOrbit (appState (handleHandUpdate s u)) = dbl (cameraOrbit (appState s) * dbl 0.96)"
  by (cases "fst u"; cases "snd u")
     (simp_all add: handleHandUpdate_def upd_simps activeSample_def INITIAL_HAND_STATE_def Let_def)

lemma hhu_orbit_active:
  "activeSample (fst u) \<or> activeSample (snd u) \<Longrightarrow>
   cameraOrbit (appState (handleHandUpdate s u)) =
     dbl (dbl (cameraOrbit (appState s) * dbl 0.94) +
          dbl (dbl (average (activeXs u) * dbl 0.4) * dbl 0.06))"
  by (cases "fst u"; cases "snd u")
     (auto simp: handleHandUpdate_def upd_simps activeSample_def activeXs_def average_def
                 INITIAL_HAND_STATE_def Let_def)

lemma hhu_orbit_double: "isDouble (cameraOrbit (appState (handleHandUpdate s u)))"
  by (simp add: handleHandUpdate_def Let_def isDouble_dbl split: prod.splits)

lemma decay_bounds:
  "(24 / 25) * (1 - 2 powi (- 53)) \<le> dbl (24 / 25)" "dbl (24 / 25) < 24 / 25"
  "1 / 2 < dbl (24 / 25)" "0 < dbl (24 / 25)" "dbl (24 / 25) < 1"
  unfolding dbl_096 by simp_all

text \<open>One update without an active hand, on an orbit that is a double.\<close>

lemma idle_step:
  assumes "isDouble x"
  shows "\<bar>dbl (x * dbl (24 / 25))\<bar> \<le> \<bar>x\<bar>"
    and "x \<noteq> 0 \<Longrightarrow> dbl (x * dbl (24 / 25)) \<noteq> 0"
    and "0 < x \<Longrightarrow> 0 < dbl (x * dbl (24 / 25))"
    and "13 * 2 powi (- 1074) \<le> \<bar>x\<bar> \<Longrightarrow> \<bar>dbl (x * dbl (24 / 25))\<bar> < \<bar>x\<bar>"
proof -
  show "\<bar>dbl (x * dbl (24 / 25))\<bar> \<le> \<bar>x\<bar>"
    using scale_abs_le [OF assms, of "dbl (24 / 25)"] decay_bounds by simp
  show "x \<noteq> 0 \<Longrightarrow> dbl (x * dbl (24 / 25)) \<noteq> 0"
    using scale_nonzero [OF assms _ decay_bounds(3,5)] by simp
  show "0 < x \<Longrightarrow> 0 < dbl (x * dbl (24 / 25))"
    using scale_pos [OF assms _ decay_bounds(3,5)] by simp
  show "13 * 2 powi (- 1074) \<le> \<bar>x\<bar> \<Longrightarrow> \<bar>dbl (x * dbl (24 / 25))\<bar> < \<bar>x\<bar>"
    using scale_strict [OF assms _ decay_bounds(4,2)] by simp
qed

text \<open>
  While the result is not below \<open>2 ^ -1021\<close>, one update multiplies the magnitude by 0.96
  up to the two roundings, of the literal and of the product.
\<close>

lemma idle_step_rel:
  assumes "2 powi (- 1021) \<le> \<bar>dbl (x * dbl (24 / 25))\<bar>"
  shows "\<bar>x\<bar> * (24 / 25 * (1 - 2 powi (- 53))\<^sup>2) \<le> \<bar>dbl (x * dbl (24 / 25))\<bar>"
    and "\<bar>dbl (x * dbl (24 / 25))\<bar> \<le> \<bar>x\<bar> * (24 / 25 * (1 + 2 powi (- 53)))"
proof -
  define e :: real where "e = 2 powi (- 53)"
  define c :: real where "c = dbl (24 / 25)"
  have e: "0 \<le> 1 - e" "0 \<le> 1 + e" by (simp_all add: e_def)
  have c: "24 / 25 * (1 - e) \<le> c" "c \<le> 24 / 25" "0 < c"
    using decay_bounds by (simp_all add: c_def e_def)
  have n: "2 powi (- 1022) \<le> \<bar>x * c\<bar>" using dbl_normal [OF assms] by (simp add: c_def)
  have "\<bar>x\<bar> * (24 / 25 * (1 - e)) * (1 - e) \<le> \<bar>x\<bar> * c * (1 - e)"
    using c(1) e(1) by (intro mult_right_mono mult_left_mono) simp_all
  also have "\<dots> \<le> \<bar>dbl (x * c)\<bar>" unfolding e_def by (rule scale_rel(1) [OF n c(3)])
  finally show "\<bar>x\<bar> * (24 / 25 * (1 - 2 powi (- 53))\<^sup>2) \<le> \<bar>dbl (x * dbl (24 / 25))\<bar>"
    by (simp add: c_def e_def power2_eq_square mult.assoc)
  have "\<bar>dbl (x * c)\<bar> \<le> \<bar>x\<bar> * c * (1 + e)" unfolding e_def by (rule scale_rel(2) [OF n c(3)])
  also have "\<dots> \<le> \<bar>x\<bar> * (24 / 25) * (1 + e)"
    using c(2) e(2) by (intro mult_right_mono mult_left_mono) simp_all
  finally show "\<bar>dbl (x * dbl (24 / 25))\<bar> \<le> \<bar>x\<bar> * (24 / 25 * (1 + 2 powi (- 53)))"
    by (simp add: c_def e_def mult.assoc)
qed

lemma orbit_idle_run:
  "isDouble (cameraOrbit (appState s)) \<Longrightarrow>
   \<forall>u \<in> set us. \<not> activeSample (fst u) \<and> \<not> activeSample (snd u) \<Longrightarrow>
   isDouble (cameraOrbit (appState (run s us))) \<and>
   \<bar>cameraOrbit (appState (run s us))\<bar> \<le> \<bar>cameraOrbit (appState s)\<bar> \<and>
   (cameraOrbit (appState s) \<noteq> 0 \<longrightarrow> cameraOrbit (appState (run s us)) \<noteq> 0) \<and>
   (0 < cameraOrbit (appState s) \<longrightarrow> 0 < cameraOrbit (appState (run s us)))"
proof (induction us arbitrary: s)
  case Nil
  then show ?case by simp
next
  case (Cons u us)
  let ?x = "cameraOrbit (appState s)"
  have o: "cameraOrbit (appState (handleHandUpdate s u)) = dbl (?x * dbl (24 / 25))"
    using Cons.prems(2) hhu_orbit_idle [of u s] by simp
  have d: "isDouble (cameraOrbit (appState (handleHandUpdate s u)))" by (rule hhu_orbit_double)
  have r: "\<forall>u \<in> set us. \<not> activeSample (fst u) \<and> \<not> activeSample (snd u)"
    using Cons.prems(2) by simp
  show ?case
    using Cons.IH [OF d r] idle_step(1,2,3) [OF Cons.prems(1)] unfolding o by auto
qed

lemma orbit_idle_rel:
  "isDouble (cameraOrbit (appState s)) \<Longrightarrow>
   \<forall>u \<in> set us. \<not> activeSample (fst u) \<and> \<not> activeSample (snd u) \<Longrightarrow>
   2 powi (- 1021) \<le> \<bar>cameraOrbit (appState (run s us))\<bar> \<Longrightarrow>
   \<bar>cameraOrbit (appState s)\<bar> * (24 / 25 * (1 - 2 powi (- 53))\<^sup>2) ^ length us
     \<le> \<bar>cameraOrbit (appState (run s us))\<bar> \<and>
   \<bar>cameraOrbit (appState (run s us))\<bar>
     \<le> \<bar>cameraOrbit (appState s)\<bar> * (24 / 25 * (1 + 2 powi (- 53))) ^ length us"
proof (induction us arbitrary: s)
  case Nil
  then show ?case by simp
next
  case (Cons u us)
  define lo :: real where "lo = 24 / 25 * (1 - 2 powi (- 53))\<^sup>2"
  define hi :: real where "hi = 24 / 25 * (1 + 2 powi (- 53))"
  define x where "x = cameraOrbit (appState s)"
  define y where "y = cameraOrbit (appState (handleHandUpdate s u))"
  define z where "z = cameraOrbit (appState (run (handleHandUpdate s u) us))"
  have lh: "0 \<le> lo" "0 \<le> hi" by (simp_all add: lo_def hi_def)
  have o: "y = dbl (x * dbl (24 / 25))"
    using Cons.prems(2) hhu_orbit_idle [of u s] by (simp add: x_def y_def)
  have d: "isDouble y" unfolding y_def by (rule hhu_orbit_double)
  have r: "\<forall>u \<in> set us. \<not> activeSample (fst u) \<and> \<not> activeSample (snd u)"
    using Cons.prems(2) by simp
  have f: "2 powi (- 1021) \<le> \<bar>z\<bar>" using Cons.prems(3) by (simp add: z_def)
  have "\<bar>z\<bar> \<le> \<bar>y\<bar>" using orbit_idle_run [OF d [unfolded y_def] r] by (simp add: y_def z_def)
  then have "2 powi (- 1021) \<le> \<bar>dbl (x * dbl (24 / 25))\<bar>" using f unfolding o by linarith
  then have st: "\<bar>x\<bar> * lo \<le> \<bar>y\<bar>" "\<bar>y\<bar> \<le> \<bar>x\<bar> * hi"
    unfolding o lo_def hi_def by (rule idle_step_rel)+
  have ih: "\<bar>y\<bar> * lo ^ length us \<le> \<bar>z\<bar>" "\<bar>z\<bar> \<le> \<bar>y\<bar> * hi ^ length us"
    using Cons.IH [OF d [unfolded y_def] r f [unfolded z_def]]
    by (simp_all add: y_def z_def lo_def hi_def)
  have "\<bar>x\<bar> * lo ^ Suc (length us) = (\<bar>x\<bar> * lo) * lo ^ length us" by simp
  also have "\<dots> \<le> \<bar>y\<bar> * lo ^ length us" using st(1) lh(1) by (intro mult_right_mono) simp_all
  also have "\<dots> \<le> \<bar>z\<bar>" by (rule ih(1))
  finally have a: "\<bar>x\<bar> * lo ^ Suc (length us) \<le> \<bar>z\<bar>" .
  have "\<bar>z\<bar> \<le> \<bar>y\<bar> * hi ^ length us" by (rule ih(2))
  also have "\<dots> \<le> (\<bar>x\<bar> * hi) * hi ^ length us" using st(2) lh(2) by (intro mult_right_mono) simp_all
  also have "\<dots> = \<bar>x\<bar> * hi ^ Suc (length us)" by simp
  finally have b: "\<bar>z\<bar> \<le> \<bar>x\<bar> * hi ^ Suc (length us)" .
  show ?case using a b by (simp add: x_def z_def lo_def hi_def)
qed

text \<open>The doubles of some literals, and some rounded products.\<close>

lemma dbl_literals:
  "dbl 0.96 = 8646911284551352 / 2 ^ 53"
  "dbl 0.4 = 3602879701896397 / 2 ^ 53"
  "dbl 0.06 = 1080863910568919 / 2 ^ 54"
proof -
  show "dbl 0.96 = 8646911284551352 / 2 ^ 53" using dbl_096 by simp
  have "roundEven (2 / 5 / 2 powi (- 54)) = 7205759403792793 + 1"
    by (rule roundEven_eval(2)) simp_all
  then have "dbl (2 / 5) = 3602879701896397 / 2 ^ 53"
    unfolding dbl_def using roundTo_eval [of "- 2" "2 / 5" 53 "- 1022"] by simp
  then show "dbl 0.4 = 3602879701896397 / 2 ^ 53" by simp
  have "roundEven (3 / 50 / 2 powi (- 57)) = 8646911284551352"
    by (rule roundEven_eval(1)) simp_all
  then have "dbl (3 / 50) = 1080863910568919 / 2 ^ 54"
    unfolding dbl_def using roundTo_eval [of "- 5" "3 / 50" 53 "- 1022"] by simp
  then show "dbl 0.06 = 1080863910568919 / 2 ^ 54" by simp
qed

lemma dbl_products:
  "dbl (17 / 4) = 17 / 4"
  "dbl (17 / 4 * (3602879701896397 / 2 ^ 53)) = 1914029841632461 / 2 ^ 50"
  "dbl (1914029841632461 / 2 ^ 50 * (1080863910568919 / 2 ^ 54)) = 3674937295934325 / 2 ^ 55"
  "dbl (0 + 3674937295934325 / 2 ^ 55) = 3674937295934325 / 2 ^ 55"
  "dbl (3674937295934325 / 2 ^ 55 * (8646911284551352 / 2 ^ 53)) = 440992475512119 / 2 ^ 52"
  "dbl (440992475512119 / 2 ^ 52 * (8646911284551352 / 2 ^ 53)) = 1693411105966537 / 2 ^ 54"
proof -
  show "dbl (17 / 4) = 17 / 4"
    unfolding dbl_def using roundTo_fix [of "17 / 4" 17 "- 2" "- 1022" 53]
      exponentOf_iff [of "17 / 4" 2] by simp
  have "roundEven (17 / 4 * (3602879701896397 / 2 ^ 53) / 2 powi (- 52)) = 7656119366529843 + 1"
    by (rule roundEven_eval(2)) simp_all
  then show "dbl (17 / 4 * (3602879701896397 / 2 ^ 53)) = 1914029841632461 / 2 ^ 50"
    unfolding dbl_def
    using roundTo_eval [of 0 "17 / 4 * (3602879701896397 / 2 ^ 53)" 53 "- 1022"] by simp
  have "roundEven (1914029841632461 / 2 ^ 50 * (1080863910568919 / 2 ^ 54) / 2 powi (- 56))
          = 7349874591868649 + 1"
    by (rule roundEven_eval(2)) simp_all
  then show "dbl (1914029841632461 / 2 ^ 50 * (1080863910568919 / 2 ^ 54))
               = 3674937295934325 / 2 ^ 55"
    unfolding dbl_def
    using roundTo_eval [of "- 4" "1914029841632461 / 2 ^ 50 * (1080863910568919 / 2 ^ 54)"
                           53 "- 1022"] by simp
  show "dbl (0 + 3674937295934325 / 2 ^ 55) = 3674937295934325 / 2 ^ 55"
    unfolding dbl_def
    using roundTo_fix [of "3674937295934325 / 2 ^ 55" 3674937295934325 "- 55" "- 1022" 53]
      exponentOf_iff [of "3674937295934325 / 2 ^ 55" "- 4"] by simp
  have "roundEven (3674937295934325 / 2 ^ 55 * (8646911284551352 / 2 ^ 53) / 2 powi (- 56))
          = 7055879608193903 + 1"
    by (rule roundEven_eval(2)) simp_all
  then show "dbl (3674937295934325 / 2 ^ 55 * (8646911284551352 / 2 ^ 53))
               = 440992475512119 / 2 ^ 52"
    unfolding dbl_def
    using roundTo_eval [of "- 4" "3674937295934325 / 2 ^ 55 * (8646911284551352 / 2 ^ 53)"
                           53 "- 1022"] by simp
  have "roundEven (440992475512119 / 2 ^ 52 * (8646911284551352 / 2 ^ 53) / 2 powi (- 56))
          = 6773644423866147 + 1"
    by (rule roundEven_eval(2)) simp_all
  then show "dbl (440992475512119 / 2 ^ 52 * (8646911284551352 / 2 ^ 53))
               = 1693411105966537 / 2 ^ 54"
    unfolding dbl_def
    using roundTo_eval [of "- 4" "440992475512119 / 2 ^ 52 * (8646911284551352 / 2 ^ 53)"
                           53 "- 1022"] by simp
qed

lemma orbit_after_edgeLeft:
  "cameraOrbit (appState (handleHandUpdate initialSession edgeLeft)) = 3674937295934325 / 2 ^ 55"
proof -
  have a: "activeSample (fst edgeLeft) \<or> activeSample (snd edgeLeft)"
    by (simp add: edgeLeft_def activeSample_def trackerSample_def)
  have x: "activeXs edgeLeft = [17 / 4]"
    by (simp add: edgeLeft_def activeXs_def trackerSample_def)
  have avg: "average (activeXs edgeLeft) = 17 / 4"
    unfolding x by (simp add: average_def dbl_products(1))
  have z: "cameraOrbit (appState initialSession) * dbl 0.94 = 0"
    by (simp add: initialSession_def)
  show ?thesis
    unfolding hhu_orbit_active [OF a] avg z dbl_0 dbl_literals dbl_products ..
qed

lemma orbit_after_edgeLeft_idle:
  "cameraOrbit (appState (run (handleHandUpdate initialSession edgeLeft) [noHands]))
     = 440992475512119 / 2 ^ 52"
  "cameraOrbit (appState (run (handleHandUpdate initialSession edgeLeft) [noHands, noHands]))
     = 1693411105966537 / 2 ^ 54"
proof -
  have n: "\<not> activeSample (fst noHands)" "\<not> activeSample (snd noHands)"
    by (simp_all add: noHands_def activeSample_def)
  show a: "cameraOrbit (appState (run (handleHandUpdate initialSession edgeLeft) [noHands]))
     = 440992475512119 / 2 ^ 52"
    unfolding run.simps hhu_orbit_idle [OF n] orbit_after_edgeLeft dbl_literals dbl_products ..
  have r2: "run (handleHandUpdate initialSession edgeLeft) [noHands, noHands] =
          handleHandUpdate (run (handleHandUpdate initialSession edgeLeft) [noHands]) noHands"
    by simp
  show "cameraOrbit (appState (run (handleHandUpdate initialSession edgeLeft) [noHands, noHands]))
     = 1693411105966537 / 2 ^ 54"
    unfolding r2 hhu_orbit_idle [OF n] a dbl_literals dbl_products ..
qed

lemma orbit_stalled:
  "cameraOrbit (appState (run stalledSession [noHands])) = 12 * 2 powi (- 1074)"
proof -
  have n: "\<not> activeSample (fst noHands)" "\<not> activeSample (snd noHands)"
    by (simp_all add: noHands_def activeSample_def)
  have o: "cameraOrbit (appState stalledSession) = 12 * 2 powi (- 1074)"
    by (simp add: stalledSession_def)
  show ?thesis
    unfolding run.simps hhu_orbit_idle [OF n] o dbl_literals scale_stall ..
qed

section \<open>The particle loops\<close>

lemma length_moveParticle [simp]: "length (moveParticle i tx ty tz s ps) = length ps"
  by (simp add: moveParticle_def Let_def)

lemma particle_moveParticle_same:
  "i * 3 + 2 < length ps \<Longrightarrow>
   particle (moveParticle i tx ty tz s ps) i = lerpParticle (particle ps i) (tx, ty, tz) s"
  by (simp add: moveParticle_def particle_def Let_def)

lemma nth_moveParticle_other:
  "k < i * 3 \<or> i * 3 + 2 < k \<Longrightarrow> moveParticle i tx ty tz s ps ! k = ps ! k"
  by (auto simp: moveParticle_def Let_def)

lemma particle_moveParticle_other:
  "j \<noteq> i \<Longrightarrow> particle (moveParticle i tx ty tz s ps) j = particle ps j"
proof -
  assume "j \<noteq> i"
  then have "j < i \<or> i < j" by arith
  then have "(j * 3 < i * 3 \<and> j * 3 + 1 < i * 3 \<and> j * 3 + 2 < i * 3) \<or>
             (i * 3 + 2 < j * 3 \<and> i * 3 + 2 < j * 3 + 1 \<and> i * 3 + 2 < j * 3 + 2)"
    by arith
  then show ?thesis
    by (auto simp: particle_def nth_moveParticle_other)
qed

text \<open>
  A loop whose body moves particle \<open>i\<close> only: after \<open>n\<close> iterations the first \<open>n\<close>
  particles have made one step each and the others are where they were.
\<close>

lemma fold_particles:
  assumes step: "\<And>i qs. f i qs = moveParticle i (tx i) (ty i) (tz i) (sp i) qs"
  shows "n * 3 \<le> length ps \<Longrightarrow>
         length (fold f [0..<n] ps) = length ps \<and>
         (\<forall>j. particle (fold f [0..<n] ps) j =
               (if j < n then lerpParticle (particle ps j) (tx j, ty j, tz j) (sp j)
                else particle ps j))"
proof (induction n)
  case 0
  then show ?case by simp
next
  case (Suc n)
  define qs where "qs = fold f [0..<n] ps"
  have len: "length qs = length ps"
    and old: "\<And>j. particle qs j =
               (if j < n then lerpParticle (particle ps j) (tx j, ty j, tz j) (sp j)
                else particle ps j)"
    using Suc by (simp_all add: qs_def)
  have unfold: "fold f [0..<Suc n] ps = moveParticle n (tx n) (ty n) (tz n) (sp n) qs"
    by (simp add: qs_def step)
  have inb: "n * 3 + 2 < length qs"
    using Suc.prems len by simp
  have "particle (moveParticle n (tx n) (ty n) (tz n) (sp n) qs) j =
          (if j < Suc n then lerpParticle (particle ps j) (tx j, ty j, tz j) (sp j)
           else particle ps j)" for j
  proof (cases "j = n")
    case True
    then show ?thesis
      using particle_moveParticle_same [OF inb] old [of n] by simp
  next
    case False
    then show ?thesis
      using particle_moveParticle_other [of j n] old [of j] by simp
  qed
  then show ?case
    unfolding unfold by (simp add: len)
qed


lemma length_morphToward:
  "length ps = PARTICLE_COUNT * 3 \<Longrightarrow> length (morphToward target factor speeds ps) = length ps"
proof -
  assume "length ps = PARTICLE_COUNT * 3"
  then have "PARTICLE_COUNT * 3 \<le> length ps" by simp
  from fold_particles [where f = "\<lambda>i ps. moveParticle i (target ! (i * 3)) (target ! (i * 3 + 1))
           (target ! (i * 3 + 2)) (factor (speeds ! i)) ps" and tx = "\<lambda>i. target ! (i * 3)"
           and ty = "\<lambda>i. target ! (i * 3 + 1)" and tz = "\<lambda>i. target ! (i * 3 + 2)"
           and sp = "\<lambda>i. factor (speeds ! i)", OF refl this]
  show ?thesis by (simp add: morphToward_def)
qed


section \<open>The update rule and the distance to the target\<close>












section \<open>The frame callback, field by field\<close>

lemma handDist_nonneg: "0 \<le> handDist h other"
  by (simp add: handDist_def)

lemma useFrame_inactive:
  assumes "meshAttached st" "matAttached st" "\<not> isActive (hand props)"
  shows "useFrame props time delta st =
     st\<lparr>prevIsFist := isFist (hand props),
        shimmerValue :=
          max 0 ((if isFist (hand props) \<and> \<not> prevIsFist st then 1 else shimmerValue st)
                 - delta * 2.5),
        matSize :=
          0.014 * (1 + max 0 ((if isFist (hand props) \<and> \<not> prevIsFist st then 1
                               else shimmerValue st) - delta * 2.5) * 1.5),
        matOpacity :=
          0.85 + max 0 ((if isFist (hand props) \<and> \<not> prevIsFist st then 1
                         else shimmerValue st) - delta * 2.5) * 0.15,
        meshPosition :=
           \<lparr>pos_x = lerpToward (pos_x (meshPosition st)) (pos_x (position (hand props))) 0.15,
            pos_y = lerpToward (pos_y (meshPosition st)) (pos_y (position (hand props))) 0.15,
            pos_z = lerpToward (pos_z (meshPosition st)) (pos_z (position (hand props))) 0.15\<rparr>,
        rotationY := rotationY st + delta * 0.4,
        visible := False\<rparr>"
  using assms by (simp add: useFrame_def Let_def)

lemma useFrame_shimmer:
  "meshAttached st \<Longrightarrow> matAttached st \<Longrightarrow>
   shimmerValue (useFrame props time delta st) =
     max 0 ((if isFist (hand props) \<and> \<not> prevIsFist st then 1 else shimmerValue st)
            - delta * 2.5)"
  by (simp add: useFrame_def Let_def)

lemma useFrame_material:
  "meshAttached st \<Longrightarrow> matAttached st \<Longrightarrow>
   matSize (useFrame props time delta st) =
     0.014 * (1 + shimmerValue (useFrame props time delta st) * 1.5) \<and>
   matOpacity (useFrame props time delta st) =
     0.85 + shimmerValue (useFrame props time delta st) * 0.15"
  by (simp add: useFrame_def Let_def)

lemma useFrame_attached:
  "meshAttached (useFrame props time delta st) = meshAttached st \<and>
   matAttached (useFrame props time delta st) = matAttached st"
  by (simp add: useFrame_def Let_def)

lemma useFrame_prevIsFist:
  "meshAttached st \<Longrightarrow> matAttached st \<Longrightarrow>
   prevIsFist (useFrame props time delta st) = isFist (hand props)"
  by (simp add: useFrame_def Let_def)

lemma shimmer_step_bounds:
  assumes "meshAttached st" "matAttached st" "0 \<le> delta"
    "0 \<le> shimmerValue st" "shimmerValue st \<le> 1"
  shows "0 \<le> shimmerValue (useFrame props time delta st) \<and>
         shimmerValue (useFrame props time delta st) \<le> 1"
  using assms by (auto simp: useFrame_shimmer)

lemma material_bounds:
  assumes "0 \<le> (v::real)" "v \<le> 1"
  shows "0.014 \<le> 0.014 * (1 + v * 1.5) \<and> 0.014 * (1 + v * 1.5) \<le> 0.014 * 2.5 \<and>
         0.85 \<le> 0.85 + v * 0.15 \<and> 0.85 + v * 0.15 \<le> 1"
  using assms by simp

lemma frames_shimmer_bounds:
  "meshAttached st \<Longrightarrow> matAttached st \<Longrightarrow> 0 \<le> shimmerValue st \<Longrightarrow> shimmerValue st \<le> 1 \<Longrightarrow>
   \<forall>f \<in> set fs. 0 \<le> snd (snd f) \<Longrightarrow>
   meshAttached (frames fs st) \<and> matAttached (frames fs st) \<and>
   0 \<le> shimmerValue (frames fs st) \<and> shimmerValue (frames fs st) \<le> 1"
proof (induction fs arbitrary: st)
  case Nil
  then show ?case by simp
next
  case (Cons f fs)
  obtain props time delta where f: "f = (props, time, delta)" by (cases f)
  have d: "0 \<le> delta" using Cons.prems(5) by (simp add: f)
  have b: "0 \<le> shimmerValue (useFrame props time delta st) \<and>
           shimmerValue (useFrame props time delta st) \<le> 1"
    using shimmer_step_bounds [OF Cons.prems(1,2) d Cons.prems(3,4)] .
  have a: "meshAttached (useFrame props time delta st)"
    "matAttached (useFrame props time delta st)"
    using Cons.prems(1,2) by (simp_all add: useFrame_attached)
  have r: "\<forall>f \<in> set fs. 0 \<le> snd (snd f)" using Cons.prems(5) by simp
  show ?case
    using Cons.IH [OF a _ _ r] b by (simp add: f)
qed

lemma frames_shimmer_decay:
  "meshAttached st \<Longrightarrow> matAttached st \<Longrightarrow> 0 \<le> shimmerValue st \<Longrightarrow>
   \<forall>f \<in> set fs. 0 \<le> snd (snd f) \<Longrightarrow> \<not> fistFlips (prevIsFist st) fs \<Longrightarrow>
   shimmerValue (frames fs st) =
     max 0 (shimmerValue st - 2.5 * sum_list (map (\<lambda>f. snd (snd f)) fs))"
proof (induction fs arbitrary: st)
  case Nil
  then show ?case by simp
next
  case (Cons f fs)
  obtain props time delta where f: "f = (props, time, delta)" by (cases f)
  let ?st = "useFrame props time delta st"
  have d: "0 \<le> delta" using Cons.prems(4) by (simp add: f)
  have nf: "\<not> (isFist (hand props) \<and> \<not> prevIsFist st)"
    and nr: "\<not> fistFlips (isFist (hand props)) fs"
    using Cons.prems(5) by (simp_all add: f)
  have sh: "shimmerValue ?st = max 0 (shimmerValue st - delta * 2.5)"
    using Cons.prems(1,2) nf by (auto simp: useFrame_shimmer)
  have a: "meshAttached ?st" "matAttached ?st"
    using Cons.prems(1,2) by (simp_all add: useFrame_attached)
  have p: "prevIsFist ?st = isFist (hand props)"
    using Cons.prems(1,2) by (simp add: useFrame_prevIsFist)
  have n: "0 \<le> shimmerValue ?st" by (simp add: sh)
  have r: "\<forall>f \<in> set fs. 0 \<le> snd (snd f)"
    using Cons.prems(4) by simp
  have t: "0 \<le> sum_list (map (\<lambda>f. snd (snd f)) fs)"
    using r by (intro sum_list_nonneg) auto
  have "shimmerValue (frames (f # fs) st) =
        max 0 (max 0 (shimmerValue st - delta * 2.5)
               - 2.5 * sum_list (map (\<lambda>f. snd (snd f)) fs))"
    using Cons.IH [OF a n r] nr by (simp add: f sh p)
  also have "\<dots> = max 0 (shimmerValue st - 2.5 * sum_list (map (\<lambda>f. snd (snd f)) (f # fs)))"
    using t d by (auto simp: f max_def algebra_simps)
  finally show ?case .
qed

lemma frames_material:
  "meshAttached st \<Longrightarrow> matAttached st \<Longrightarrow>
   matSize st = 0.014 * (1 + shimmerValue st * 1.5) \<Longrightarrow>
   matOpacity st = 0.85 + shimmerValue st * 0.15 \<Longrightarrow>
   matSize (frames fs st) = 0.014 * (1 + shimmerValue (frames fs st) * 1.5) \<and>
   matOpacity (frames fs st) = 0.85 + shimmerValue (frames fs st) * 0.15"
proof (induction fs arbitrary: st)
  case Nil
  then show ?case by simp
next
  case (Cons f fs)
  obtain props time delta where f: "f = (props, time, delta)" by (cases f)
  let ?st = "useFrame props time delta st"
  have a: "meshAttached ?st" "matAttached ?st"
    using Cons.prems(1,2) by (simp_all add: useFrame_attached)
  have m: "matSize ?st = 0.014 * (1 + shimmerValue ?st * 1.5)"
    "matOpacity ?st = 0.85 + shimmerValue ?st * 0.15"
    using useFrame_material [OF Cons.prems(1,2), of props time delta] by simp_all
  show ?case
    using Cons.IH [OF a m] by (simp add: f)
qed

section \<open>The overlay scheduler, event by event\<close>

lemma dbl_error_below:
  assumes "\<bar>x\<bar> < 2 powi (e + 1)" "- 1022 \<le> e"
  shows "\<bar>dbl x - x\<bar> \<le> 2 powi (e - 53)"
proof (cases "x = 0")
  case True
  then show ?thesis by (simp add: dbl_0)
next
  case False
  have "exponentOf x < e + 1" using exponentOf_less [OF False assms(1)] .
  then have "max (exponentOf x) (- 1022) - int 53 + 1 \<le> e - 52" using assms(2) by simp
  then have "ulp 53 (- 1022) x \<le> 2 powi (e - 52)"
    unfolding ulp_def by (intro power_int_increasing) simp_all
  moreover have "(2::real) powi (e - 52) = 2 powi (e - 53) * 2 powi 1" by (rule powi2_eq) simp
  ultimately have "ulp 53 (- 1022) x / 2 \<le> 2 powi (e - 53)" by simp
  then show ?thesis using roundTo_abs_error [of 53 "- 1022" x] unfolding dbl_def by linarith
qed

lemma dbl_thousands: "dbl 15000 = 15000" "dbl 30000 = 30000" "dbl 45000 = 45000"
proof -
  show "dbl 15000 = 15000"
    unfolding dbl_def using roundTo_fix [of 15000 15000 0 "- 1022" 53]
      exponentOf_iff [of 15000 13] by simp
  show "dbl 30000 = 30000"
    unfolding dbl_def using roundTo_fix [of 30000 30000 0 "- 1022" 53]
      exponentOf_iff [of 30000 14] by simp
  show "dbl 45000 = 45000"
    unfolding dbl_def using roundTo_fix [of 45000 45000 0 "- 1022" 53]
      exponentOf_iff [of 45000 15] by simp
qed

lemma overlayDelay_bounds:
  assumes "0 \<le> rng k" "rng k < 1"
  shows "15000 \<le> overlayDelay rng k" and "overlayDelay rng k \<le> 45000"
    and "\<bar>overlayDelay rng k - (15000 + rng k * 30000)\<bar> \<le> 2 powi (- 37)"
proof -
  define a where "a = dbl (rng k * 30000)"
  have a0: "0 \<le> a" using dbl_mono [of 0 "rng k * 30000"] assms(1) by (simp add: a_def dbl_0)
  have a1: "a \<le> 30000"
    using dbl_mono [of "rng k * 30000" 30000] assms(2) by (simp add: a_def dbl_thousands)
  show "15000 \<le> overlayDelay rng k"
    using dbl_mono [of 15000 "15000 + a"] a0 by (simp add: overlayDelay_def a_def dbl_thousands)
  show "overlayDelay rng k \<le> 45000"
    using dbl_mono [of "15000 + a" 45000] a1 by (simp add: overlayDelay_def a_def dbl_thousands)
  have "\<bar>rng k * 30000\<bar> < 2 powi (14 + 1)" using assms by simp
  then have e1: "\<bar>a - rng k * 30000\<bar> \<le> 2 powi (14 - 53)"
    unfolding a_def by (rule dbl_error_below) simp
  have "\<bar>15000 + a\<bar> < 2 powi (15 + 1)" using a0 a1 by simp
  then have e2: "\<bar>dbl (15000 + a) - (15000 + a)\<bar> \<le> 2 powi (15 - 53)"
    by (rule dbl_error_below) simp
  have "(2::real) powi (14 - 53) + 2 powi (15 - 53) \<le> 2 powi (- 37)" by simp
  then show "\<bar>overlayDelay rng k - (15000 + rng k * 30000)\<bar> \<le> 2 powi (- 37)"
    using e1 e2 unfolding overlayDelay_def a_def by linarith
qed

text \<open>
  The state after each complete cycle (\<open>2 * j\<close> firings, the overlay is off and the next
  show timer is pending) and in each window (\<open>2 * j + 1\<close> firings, the overlay is on and
  the hide timer is pending).
\<close>

lemma overlay_cycle:
  "showing (overlayAfter rng late (2 * j)) = False \<and>
   pending (overlayAfter rng late (2 * j)) =
     Some (ShowText, clock (overlayAfter rng late (2 * j)) + overlayDelay rng j + late (2 * j)) \<and>
   timersSet (overlayAfter rng late (2 * j)) = 2 * j + 1 \<and>
   drawsMade (overlayAfter rng late (2 * j)) = j + 1"
proof (induction j)
  case 0
  show ?case by (simp add: mountOverlay_def trigger_def setTimeout_def Let_def)
next
  case (Suc j)
  define a where "a = overlayAfter rng late (2 * j)"
  have a: "showing a = False"
    "pending a = Some (ShowText, clock a + overlayDelay rng j + late (2 * j))"
    "timersSet a = 2 * j + 1" "drawsMade a = j + 1"
    using Suc by (simp_all add: a_def)
  have "overlayAfter rng late (2 * Suc j) = fire rng late (fire rng late a)"
    by (simp add: a_def)
  then show ?case
    using a by (simp add: fire_def trigger_def setTimeout_def Let_def)
qed

lemma overlay_window:
  "showing (overlayAfter rng late (2 * j + 1)) = True \<and>
   clock (overlayAfter rng late (2 * j + 1)) =
     clock (overlayAfter rng late (2 * j)) + overlayDelay rng j + late (2 * j) \<and>
   pending (overlayAfter rng late (2 * j + 1)) =
     Some (HideText, clock (overlayAfter rng late (2 * j + 1)) + 3000 + late (2 * j + 1)) \<and>
   clock (overlayAfter rng late (2 * Suc j)) =
     clock (overlayAfter rng late (2 * j + 1)) + 3000 + late (2 * j + 1)"
proof -
  define a where "a = overlayAfter rng late (2 * j)"
  have a: "showing a = False"
    "pending a = Some (ShowText, clock a + overlayDelay rng j + late (2 * j))"
    "timersSet a = 2 * j + 1" "drawsMade a = j + 1"
    using overlay_cycle [of rng late j] by (simp_all add: a_def)
  have b: "overlayAfter rng late (2 * j + 1) = fire rng late a"
    "overlayAfter rng late (2 * Suc j) = fire rng late (fire rng late a)"
    by (simp_all add: a_def)
  show ?thesis
    unfolding b a_def [symmetric] using a by (simp add: fire_def trigger_def setTimeout_def Let_def)
qed

text \<open>With draws in [0, 1) and timers that are not early, the clock never goes back.\<close>

lemma overlay_clock_mono:
  assumes "validDraws rng" "\<forall>n. 0 \<le> late n" "i \<le> j"
  shows "clock (overlayAfter rng late (2 * i)) \<le> clock (overlayAfter rng late (2 * j))"
  using assms(3)
proof (induction j)
  case 0
  then show ?case by simp
next
  case (Suc j)
  show ?case
  proof (cases "i = Suc j")
    case True then show ?thesis by simp
  next
    case False
    then have "i \<le> j" using Suc.prems by simp
    then have "clock (overlayAfter rng late (2 * i)) \<le> clock (overlayAfter rng late (2 * j))"
      by (rule Suc.IH)
    moreover have "15000 \<le> overlayDelay rng j"
      using overlayDelay_bounds(1) [of rng j] assms(1) by (simp add: validDraws_def)
    moreover have "0 \<le> late (2 * j)" "0 \<le> late (2 * j + 1)" using assms(2) by simp_all
    ultimately show ?thesis
      using overlay_window [of rng late j] by linarith
  qed
qed

lemma largest_draw_delay: "overlayDelay largestDrawFirst 0 = 45000"
proof -
  have "roundEven ((1 - 1 / 2 ^ 53) * 30000 / 2 powi (- 38)) = 8246337208319999"
    by (rule roundEven_eval(1)) simp_all
  then have a: "dbl ((1 - 1 / 2 ^ 53) * 30000) = 8246337208319999 / 2 ^ 38"
    unfolding dbl_def using roundTo_eval [of 14 "(1 - 1 / 2 ^ 53) * 30000" 53 "- 1022"] by simp
  have "roundEven ((15000 + 8246337208319999 / 2 ^ 38) / 2 powi (- 37))
          = (if even (6184752906239999::int) then 6184752906239999 else 6184752906239999 + 1)"
    by (rule roundEven_eval(3)) simp
  then have b: "dbl (15000 + 8246337208319999 / 2 ^ 38) = 45000"
    unfolding dbl_def using roundTo_eval [of 15 "15000 + 8246337208319999 / 2 ^ 38" 53 "- 1022"]
    by simp
  have c: "largestDrawFirst 0 = 1 - 1 / 2 ^ 53" by (simp add: largestDrawFirst_def)
  show ?thesis unfolding overlayDelay_def c a b ..
qed

lemma halfQuarter_delays: "overlayDelay halfQuarter 0 = 30000" "overlayDelay halfQuarter 1 = 22500"
proof -
  have a: "dbl (1 / 2 * 30000) = 15000" "dbl (1 / 4 * 30000) = 7500"
    "dbl (15000 + 15000) = 30000" "dbl (15000 + 7500) = 22500"
    unfolding dbl_def
    using roundTo_fix [of 15000 15000 0 "- 1022" 53] exponentOf_iff [of 15000 13]
          roundTo_fix [of 7500 7500 0 "- 1022" 53] exponentOf_iff [of 7500 12]
          roundTo_fix [of 30000 30000 0 "- 1022" 53] exponentOf_iff [of 30000 14]
          roundTo_fix [of 22500 22500 0 "- 1022" 53] exponentOf_iff [of 22500 14]
    by simp_all
  have c: "halfQuarter 0 = 1 / 2" "halfQuarter 1 = 1 / 4" by (simp_all add: halfQuarter_def)
  show "overlayDelay halfQuarter 0 = 30000" unfolding overlayDelay_def c a ..
  show "overlayDelay halfQuarter 1 = 22500" unfolding overlayDelay_def c a ..
qed

section \<open>The generators: size of the buffer\<close>

lemma length_zeros [simp]: "length zeros = PARTICLE_COUNT * 3"
  by (simp add: zeros_def)

lemma length_put3 [simp]: "length (put3 idx x y z pts) = length pts"
  by (simp add: put3_def)

lemma length_putSphere [simp]: "length (putSphere i r t p pts) = length pts"
  by (simp add: putSphere_def)







subsection \<open>Loops over the particles without draws\<close>












subsection \<open>Loops over the particles with draws\<close>

































subsection \<open>Nested loops\<close>








subsection \<open>Generators that read a position array\<close>







lemma getMeshPoints_empty: "getMeshPoints [] = None"
proof -
  have n: "fold (\<lambda>i res. case res of None \<Rightarrow> None | Some result \<Rightarrow> None) xs None = None"
    for xs :: "nat list"
    by (induction xs) simp_all
  have u: "[0..<PARTICLE_COUNT] = 0 # [Suc 0..<PARTICLE_COUNT]"
    by (subst upt_rec) (simp add: PARTICLE_COUNT_def)
  show ?thesis
    unfolding getMeshPoints_def u by (simp add: n)
qed

subsection \<open>The gyroid\<close>










lemma treeLoop_nodes: "nodes \<noteq> [] \<Longrightarrow> fst (treeLoop three rng nodes stack k) \<noteq> []"
proof (induction three rng nodes stack k rule: treeLoop.induct)
  case (1 three rng nodes stack k)
  show ?case
    using 1 by (subst treeLoop.simps) (simp add: Let_def del: treeLoop.simps)
qed









section \<open>The claims\<close>

text \<open>
  C1. The code does not do what the claim says. The library that is built has 62
  shapes, but the selector counts modulo 65: the indices handed out at the first 63
  fist-closes of a session are 0, 1, ..., 62, so the 63rd fist-close is given the index
  62, where the claim's \<open>(k - 1) mod librarySize\<close> is 0. The first 62 fist-closes are as the
  claim says.
\<close>

theorem selector_not_modulo_library:
  "assigned initialSession (concat (replicate 62 [closeLeft, openLeft]) @ [closeLeft]) = [0..<63] \<and>
   assigned initialSession (concat (replicate 62 [closeLeft, openLeft]) @ [closeLeft]) ! 62 = 62 \<and>
   length (shapes gen) = 62 \<and>
   (63 - 1) mod length (shapes gen) = 0"
proof -
  let ?us = "concat (replicate 62 [closeLeft, openLeft]) @ [closeLeft]"
  have i: "\<not> isFist (leftHand (appState initialSession))"
    by (simp add: initialSession_def INITIAL_HAND_STATE_def)
  have l: "length (assigned initialSession ?us) = 63"
    using assigned_close_open [OF i, of 62] by simp
  have z: "fistCount initialSession = 0" by (simp add: initialSession_def)
  have "assigned initialSession ?us = map (\<lambda>k. k mod 65) [0..<63]"
    using assigned_from_count [of initialSession ?us] unfolding z add_0 l .
  also have "\<dots> = [0..<63]"
    by (rule nth_equalityI) simp_all
  finally have a: "assigned initialSession ?us = [0..<63]" .
  have b: "[0..<63] ! 62 = (62::nat)" by simp
  show ?thesis unfolding a using b length_shapes [of gen] by simp
qed

text \<open>
  C2, as the claim states it, fails: the right hand is given index 1 at the second
  fist-close of a session, and on the next update, where it is absent, its index is 0.
\<close>

theorem absent_hand_counterexample:
  "snd openLeft = None \<and>
   shapeIndex (rightHand (appState (run initialSession [closeLeft, openLeftCloseRight]))) = 1 \<and>
   shapeIndex (rightHand (appState
      (run initialSession [closeLeft, openLeftCloseRight, openLeft]))) = 0"
  by (simp add: hhu_left hhu_right hhu_count upd_simps sample_defs initialSession_def
                INITIAL_HAND_STATE_def)

text \<open>
  C2, amended. On every update on which a hand is absent, the hand's whole state is
  replaced by the initial hand state, whose shape index is 0; a hand that comes back
  without a fist after an absence carries the index 0, not the index it was assigned
  before it went away.
\<close>

theorem absent_hand_reset:
  "leftHand (appState (handleHandUpdate s (None, r))) = INITIAL_HAND_STATE \<and>
   rightHand (appState (handleHandUpdate s (l, None))) = INITIAL_HAND_STATE \<and>
   shapeIndex INITIAL_HAND_STATE = 0 \<and>
   (\<not> isFist h \<longrightarrow>
      shapeIndex (leftHand (appState
        (handleHandUpdate (handleHandUpdate s (None, r)) (Some h, r')))) = 0 \<and>
      shapeIndex (rightHand (appState
        (handleHandUpdate (handleHandUpdate s (l, None)) (l', Some h)))) = 0)"
  by (simp add: hhu_left hhu_right hhu_count upd_simps INITIAL_HAND_STATE_def)

theorem absent_hand_reset_witness:
  "\<not> isFist (trackerSample False 0.5 0.5) \<and>
   shapeIndex (rightHand (appState (run initialSession [closeLeft, openLeftCloseRight]))) = 1 \<and>
   shapeIndex (rightHand (appState (handleHandUpdate
      (handleHandUpdate (run initialSession [closeLeft, openLeftCloseRight]) (None, None))
      (None, Some (trackerSample False 0.5 0.5))))) = 0"
  using absent_hand_reset [of "run initialSession [closeLeft, openLeftCloseRight]" None None
                              "trackerSample False 0.5 0.5" None None]
  by (simp add: hhu_left hhu_right hhu_count upd_simps sample_defs initialSession_def
                INITIAL_HAND_STATE_def)




text \<open>
  C4. The code does not do what the claim says. The selector reduces modulo 65, but the
  library that is built has 62 shapes: the 63rd fist-close of a session is given the
  index 62, which is not below the library's size. The engine's own lookup reduces
  modulo the length of the list and finds a shape for every index, so for the index 62
  it shows the first shape of the library again.
\<close>

theorem selector_modulus_exceeds_library:
  "shapeIndex (leftHand (appState
      (run initialSession (concat (replicate 62 [closeLeft, openLeft]) @ [closeLeft])))) = 62 \<and>
   length (shapes gen) = 62 \<and>
   targetLookup (shapes gen) 62 = Some (shapes gen ! 0) \<and>
   (\<forall>idx. \<exists>t. targetLookup (shapes gen) idx = Some t)"
proof -
  let ?s = "run initialSession (concat (replicate 62 [closeLeft, openLeft]))"
  have i: "\<not> isFist (leftHand (appState initialSession))"
    by (simp add: initialSession_def INITIAL_HAND_STATE_def)
  have c: "fistCount ?s = 62" and f: "\<not> isFist (leftHand (appState ?s))"
    using close_open_round [OF i, of 62] by (simp_all add: initialSession_def)
  have "shapeIndex (leftHand (appState (handleHandUpdate ?s closeLeft))) = 62"
    using c f by (simp add: hhu_left upd_simps sample_defs)
  moreover have "targetLookup (shapes gen) 62 = Some (shapes gen ! 0)"
    using length_shapes [of gen] by (auto simp: targetLookup_def)
  ultimately show ?thesis
    using targetLookup_shapes [of gen] by (simp add: run_append length_shapes)
qed

text \<open>
  C5, as the claim states it, fails at the upper end of the range: the delay is computed
  in doubles, and for the largest double below 1 as the draw the product rounds to the
  double just below 30000 and the sum, which lies halfway between two doubles, rounds
  to 45000 itself. With that draw first and ideal timers the overlay flag becomes true
  45000 ms after the mount.
\<close>

theorem overlay_delay_counterexample:
  "validDraws largestDrawFirst \<and> idealTimers 0 = 0 \<and>
   largestDrawFirst 0 = 1 - 1 / 2 ^ 53 \<and>
   overlayDelay largestDrawFirst 0 = 45000 \<and>
   \<not> overlayDelay largestDrawFirst 0 < 45000 \<and>
   showing (overlayAfter largestDrawFirst idealTimers 0) = False \<and>
   clock (overlayAfter largestDrawFirst idealTimers 0) = 0 \<and>
   showing (overlayAfter largestDrawFirst idealTimers 1) = True \<and>
   clock (overlayAfter largestDrawFirst idealTimers 1) = 45000"
proof -
  have v: "validDraws largestDrawFirst" by (simp add: validDraws_def largestDrawFirst_def)
  have c: "clock (overlayAfter largestDrawFirst idealTimers 0) = 0"
    by (simp add: mountOverlay_def trigger_def setTimeout_def Let_def)
  have w: "showing (overlayAfter largestDrawFirst idealTimers 0) = False"
    "showing (overlayAfter largestDrawFirst idealTimers 1) = True"
    "clock (overlayAfter largestDrawFirst idealTimers 1) =
       clock (overlayAfter largestDrawFirst idealTimers 0) + overlayDelay largestDrawFirst 0
         + idealTimers 0"
    using overlay_cycle [of largestDrawFirst idealTimers 0]
          overlay_window [of largestDrawFirst idealTimers 0] by simp_all
  show ?thesis
    using v w c by (simp add: largest_draw_delay idealTimers_def largestDrawFirst_def)
qed

text \<open>
  C5, amended. The scheduler alternates between waiting and showing. With draws in
  [0, 1) and timers that fire exactly when their delay has passed: while it waits the
  overlay flag is false and the show timer is pending; the flag becomes true when that
  timer fires, a delay after the scheduler was armed, where the delay is
  \<open>15000 + draw * 30000\<close> computed in doubles, which lies in [15000, 45000] and differs
  from the exact value by at most \<open>2 ^ -37\<close> ms; the flag then stays true for exactly
  3000 ms, until the hide timer fires; at that moment the flag returns to false and the
  next show timer is set, with the next draw. A window ends at least 15000 ms before
  any later window begins, so two windows never overlap. With timers that may fire
  late, the waits are at least 15000 ms, the windows last at least 3000 ms, and they
  still do not overlap.
\<close>

theorem overlay_timing:
  "(validDraws rng \<and> (\<forall>n. late n = 0) \<longrightarrow>
      showing (overlayAfter rng late (2 * j)) = False \<and>
      pending (overlayAfter rng late (2 * j)) =
        Some (ShowText, clock (overlayAfter rng late (2 * j)) + overlayDelay rng j) \<and>
      overlayDelay rng j = dbl (15000 + dbl (rng j * 30000)) \<and>
      15000 \<le> overlayDelay rng j \<and> overlayDelay rng j \<le> 45000 \<and>
      \<bar>overlayDelay rng j - (15000 + rng j * 30000)\<bar> \<le> 2 powi (- 37) \<and>
      showing (overlayAfter rng late (2 * j + 1)) = True \<and>
      clock (overlayAfter rng late (2 * j + 1)) =
        clock (overlayAfter rng late (2 * j)) + overlayDelay rng j \<and>
      pending (overlayAfter rng late (2 * j + 1)) =
        Some (HideText, clock (overlayAfter rng late (2 * j + 1)) + 3000) \<and>
      clock (overlayAfter rng late (2 * Suc j)) =
        clock (overlayAfter rng late (2 * j + 1)) + 3000 \<and>
      (j < k \<longrightarrow> clock (overlayAfter rng late (2 * Suc j)) + 15000
                   \<le> clock (overlayAfter rng late (2 * k + 1)))) \<and>
   (validDraws rng \<and> (\<forall>n. 0 \<le> late n) \<longrightarrow>
      clock (overlayAfter rng late (2 * j)) + 15000 \<le> clock (overlayAfter rng late (2 * j + 1)) \<and>
      clock (overlayAfter rng late (2 * j + 1)) + 3000 \<le> clock (overlayAfter rng late (2 * Suc j)) \<and>
      (j < k \<longrightarrow> clock (overlayAfter rng late (2 * Suc j)) + 15000
                   \<le> clock (overlayAfter rng late (2 * k + 1))))"
proof -
  have gen: "clock (overlayAfter rng late (2 * j)) + 15000 \<le> clock (overlayAfter rng late (2 * j + 1)) \<and>
      clock (overlayAfter rng late (2 * j + 1)) + 3000 \<le> clock (overlayAfter rng late (2 * Suc j)) \<and>
      (j < k \<longrightarrow> clock (overlayAfter rng late (2 * Suc j)) + 15000
                   \<le> clock (overlayAfter rng late (2 * k + 1)))"
    if v: "validDraws rng" and l: "\<forall>n. 0 \<le> late n" for late
  proof (intro conjI impI)
    have d: "15000 \<le> overlayDelay rng i" for i
      using overlayDelay_bounds(1) [of rng i] v by (simp add: validDraws_def)
    have l2: "0 \<le> late (2 * i)" "0 \<le> late (2 * i + 1)" for i using l by simp_all
    show "clock (overlayAfter rng late (2 * j)) + 15000 \<le> clock (overlayAfter rng late (2 * j + 1))"
      using overlay_window [of rng late j] d [of j] l2 [of j] by linarith
    show "clock (overlayAfter rng late (2 * j + 1)) + 3000 \<le> clock (overlayAfter rng late (2 * Suc j))"
      using overlay_window [of rng late j] l2 [of j] by linarith
    assume "j < k"
    then have "Suc j \<le> k" by simp
    then have "clock (overlayAfter rng late (2 * Suc j)) \<le> clock (overlayAfter rng late (2 * k))"
      by (rule overlay_clock_mono [OF v l])
    then show "clock (overlayAfter rng late (2 * Suc j)) + 15000
                 \<le> clock (overlayAfter rng late (2 * k + 1))"
      using overlay_window [of rng late k] d [of k] l2 [of k] by linarith
  qed
  show ?thesis
  proof (intro conjI impI)
    assume h: "validDraws rng \<and> (\<forall>n. late n = 0)"
    then have v: "validDraws rng" and z: "\<And>n. late n = 0" by simp_all
    have r: "0 \<le> rng j" "rng j < 1" using v by (simp_all add: validDraws_def)
    show "showing (overlayAfter rng late (2 * j)) = False"
      using overlay_cycle [of rng late j] by simp
    show "pending (overlayAfter rng late (2 * j)) =
        Some (ShowText, clock (overlayAfter rng late (2 * j)) + overlayDelay rng j)"
      using overlay_cycle [of rng late j] by (simp add: z)
    show "overlayDelay rng j = dbl (15000 + dbl (rng j * 30000))" by (simp add: overlayDelay_def)
    show "15000 \<le> overlayDelay rng j" "overlayDelay rng j \<le> 45000"
      "\<bar>overlayDelay rng j - (15000 + rng j * 30000)\<bar> \<le> 2 powi (- 37)"
      using overlayDelay_bounds [of rng j] r by simp_all
    show "showing (overlayAfter rng late (2 * j + 1)) = True"
      using overlay_window [of rng late j] by simp
    show "clock (overlayAfter rng late (2 * j + 1)) =
        clock (overlayAfter rng late (2 * j)) + overlayDelay rng j"
      using overlay_window [of rng late j] by (simp add: z)
    show "pending (overlayAfter rng late (2 * j + 1)) =
        Some (HideText, clock (overlayAfter rng late (2 * j + 1)) + 3000)"
      using overlay_window [of rng late j] by (simp add: z)
    show "clock (overlayAfter rng late (2 * Suc j)) =
        clock (overlayAfter rng late (2 * j + 1)) + 3000"
      using overlay_window [of rng late j] by (simp add: z)
    assume "j < k"
    then show "clock (overlayAfter rng late (2 * Suc j)) + 15000
                 \<le> clock (overlayAfter rng late (2 * k + 1))"
      using gen [of late] v z by simp
  next
    assume h: "validDraws rng \<and> (\<forall>n. 0 \<le> late n)"
    then show "clock (overlayAfter rng late (2 * j)) + 15000
                 \<le> clock (overlayAfter rng late (2 * j + 1))"
      using gen [of late] by simp
    from h show "clock (overlayAfter rng late (2 * j + 1)) + 3000
                 \<le> clock (overlayAfter rng late (2 * Suc j))"
      using gen [of late] by simp
    assume "j < k"
    with h show "clock (overlayAfter rng late (2 * Suc j)) + 15000
                 \<le> clock (overlayAfter rng late (2 * k + 1))"
      using gen [of late] by simp
  qed
qed

theorem overlay_timing_witness:
  "validDraws halfQuarter \<and> idealTimers 0 = 0 \<and> idealTimers 1 = 0 \<and> (0::nat) < 1 \<and>
   halfQuarter 0 = 1 / 2 \<and> halfQuarter 1 = 1 / 4 \<and>
   showing (overlayAfter halfQuarter idealTimers 0) = False \<and>
   clock (overlayAfter halfQuarter idealTimers 0) = 0 \<and>
   overlayDelay halfQuarter 0 = 30000 \<and>
   showing (overlayAfter halfQuarter idealTimers 1) = True \<and>
   clock (overlayAfter halfQuarter idealTimers 1) = 30000 \<and>
   showing (overlayAfter halfQuarter idealTimers 2) = False \<and>
   clock (overlayAfter halfQuarter idealTimers 2) = 33000 \<and>
   overlayDelay halfQuarter 1 = 22500 \<and>
   showing (overlayAfter halfQuarter idealTimers 3) = True \<and>
   clock (overlayAfter halfQuarter idealTimers 3) = 55500 \<and>
   clock (overlayAfter halfQuarter idealTimers 2) + 15000
     \<le> clock (overlayAfter halfQuarter idealTimers 3)"
proof -
  have v: "validDraws halfQuarter" by (simp add: validDraws_def halfQuarter_def)
  have i: "\<forall>n. idealTimers n = 0" "\<forall>n. 0 \<le> idealTimers n" by (simp_all add: idealTimers_def)
  have c0: "clock (overlayAfter halfQuarter idealTimers 0) = 0"
    by (simp add: mountOverlay_def trigger_def setTimeout_def Let_def)
  have n: "2 * 0 = (0::nat)" "2 * 0 + 1 = (1::nat)" "2 * Suc 0 = (2::nat)" "2 * 1 = (2::nat)"
    "2 * 1 + 1 = (3::nat)" by simp_all
  note t0 = overlay_timing [where rng = halfQuarter and late = idealTimers and j = 0 and k = 1,
              THEN conjunct1, THEN mp, OF conjI [OF v i(1)], unfolded n halfQuarter_delays c0]
  note t1 = overlay_timing [where rng = halfQuarter and late = idealTimers and j = 1 and k = 2,
              THEN conjunct1, THEN mp, OF conjI [OF v i(1)], unfolded n halfQuarter_delays]
  have a: "showing (overlayAfter halfQuarter idealTimers 0) = False"
    "showing (overlayAfter halfQuarter idealTimers 1) = True"
    "clock (overlayAfter halfQuarter idealTimers 1) = 30000"
    "clock (overlayAfter halfQuarter idealTimers 2) = 33000"
    using t0 by simp_all
  have b: "showing (overlayAfter halfQuarter idealTimers 2) = False"
    "showing (overlayAfter halfQuarter idealTimers 3) = True"
    "clock (overlayAfter halfQuarter idealTimers 3) = 55500"
    using t1 a by simp_all
  have e: "idealTimers 0 = 0" "idealTimers 1 = 0" "(0::nat) < 1"
    "halfQuarter 0 = 1 / 2" "halfQuarter 1 = 1 / 4"
    by (simp_all add: idealTimers_def halfQuarter_def)
  have le: "clock (overlayAfter halfQuarter idealTimers 2) + 15000
              \<le> clock (overlayAfter halfQuarter idealTimers 3)"
    unfolding a b by simp
  show ?thesis
    by (intro conjI) (rule v e a b c0 halfQuarter_delays le)+
qed

text \<open>
  C6. Spread clamp, over the reals. The spread is 1 plus the smaller of 3 and half the
  distance of the two hands in the x-y plane when the other hand is active and not a
  fist, and 1 otherwise; it always lies between 1 and 4. It is the spread of the ambient
  cloud, which is the loop a frame runs for an active, open hand while the overlay is
  not showing.
\<close>

theorem spread_clamp:
  "spread h other =
     (if isActive other \<and> \<not> isFist other
      then 1 + min (0.5 * sqrt ((pos_x (position h) - pos_x (position other))\<^sup>2 +
                                (pos_y (position h) - pos_y (position other))\<^sup>2)) 3
      else 1) \<and>
   1 \<le> spread h other \<and> spread h other \<le> 4 \<and>
   (meshAttached st \<and> matAttached st \<and> isActive (hand props) \<and> \<not> isFist (hand props) \<and>
    \<not> isShowingText props \<longrightarrow>
      pos (useFrame props time delta st) =
        cloudLoop time (spread (hand props) (otherHand props)) (pos st))"
proof (intro conjI)
  show "spread h other =
     (if isActive other \<and> \<not> isFist other
      then 1 + min (0.5 * sqrt ((pos_x (position h) - pos_x (position other))\<^sup>2 +
                                (pos_y (position h) - pos_y (position other))\<^sup>2)) 3
      else 1)"
    by (simp add: spread_def handDist_def mult.commute)
  show "1 \<le> spread h other"
    using handDist_nonneg [of h other] by (simp add: spread_def)
  show "spread h other \<le> 4"
    by (simp add: spread_def)
  show "meshAttached st \<and> matAttached st \<and> isActive (hand props) \<and> \<not> isFist (hand props) \<and>
    \<not> isShowingText props \<longrightarrow>
      pos (useFrame props time delta st) =
        cloudLoop time (spread (hand props) (otherHand props)) (pos st)"
    by (simp add: useFrame_def Let_def)
qed

theorem spread_clamp_witness:
  "meshAttached (initialMorph []) \<and> matAttached (initialMorph []) \<and>
   isActive (hand openProps) \<and> \<not> isFist (hand openProps) \<and> \<not> isShowingText openProps \<and>
   isActive (otherHand openProps) \<and> \<not> isFist (otherHand openProps) \<and>
   spread (hand openProps) (otherHand openProps) = 1 \<and>
   pos (useFrame openProps 0 0 (initialMorph [])) = cloudLoop 0 1 (pos (initialMorph []))"
  using spread_clamp [of "hand openProps" "otherHand openProps" "initialMorph []" openProps 0 0]
  by (simp add: openProps_def initialMorph_def trackerSample_def spread_def handDist_def)

text \<open>
  C7, as the claim states it, fails. The orbit is a double and every product is rounded.
  An orbit that has decayed to 12 times the smallest positive double (\<open>2 ^ -1074\<close>) is
  left as it is by an update without an active hand, because 12 times 0.96 rounds to
  12: its magnitude does not decrease and it is not its starting value times 0.96. Well
  above that range the equation fails too: after an update with an open hand at the
  left edge of the image, two updates without a hand do not yield the orbit times 0.96
  squared.
\<close>

theorem orbit_decay_counterexample:
  "isDouble (cameraOrbit (appState stalledSession)) \<and>
   cameraOrbit (appState stalledSession) \<noteq> 0 \<and>
   \<not> activeSample (fst noHands) \<and> \<not> activeSample (snd noHands) \<and>
   cameraOrbit (appState (run stalledSession [noHands])) = cameraOrbit (appState stalledSession) \<and>
   cameraOrbit (appState (run stalledSession [noHands]))
     \<noteq> cameraOrbit (appState stalledSession) * 0.96 ^ length [noHands] \<and>
   \<not> \<bar>cameraOrbit (appState (run stalledSession [noHands]))\<bar>
       < \<bar>cameraOrbit (appState stalledSession)\<bar> \<and>
   cameraOrbit (appState (run (handleHandUpdate initialSession edgeLeft) [noHands, noHands]))
     \<noteq> cameraOrbit (appState (handleHandUpdate initialSession edgeLeft))
         * 0.96 ^ length [noHands, noHands]"
proof -
  have o: "cameraOrbit (appState stalledSession) = 12 * 2 powi (- 1074)"
    by (simp add: stalledSession_def)
  have g: "0 < (2::real) powi (- 1074)" by (rule zero_less_power_int) simp
  have d: "isDouble (12 * 2 powi (- 1074))"
    unfolding isDouble_def dbl_def
  proof (rule roundTo_fix [of _ 12 "- 1074"])
    have "exponentOf (12 * 2 powi (- 1074)) = - 1071"
    proof -
      have "(2::real) powi (- 1071) = 2 powi 3 * 2 powi (- 1074)" by (rule powi2_eq) simp
      moreover have "(2::real) powi (- 1071 + 1) = 2 powi 4 * 2 powi (- 1074)" by (rule powi2_eq) simp
      ultimately show ?thesis
        using exponentOf_iff [of "12 * 2 powi (- 1074)" "- 1071"] g by (simp add: abs_mult)
    qed
    then show "max (exponentOf (12 * 2 powi (- 1074))) (- 1022) - int 53 + 1 \<le> - 1074" by simp
  qed simp
  have n: "\<not> activeSample (fst noHands)" "\<not> activeSample (snd noHands)"
    by (simp_all add: noHands_def activeSample_def)
  have a: "12 * 2 powi (- 1074) \<noteq> (0::real)" using g by simp
  have b: "12 * 2 powi (- 1074) \<noteq> 12 * 2 powi (- 1074) * (0.96::real) ^ length [noHands]"
    using g by simp
  have c: "(1693411105966537 / 2 ^ 54 :: real)
             \<noteq> 3674937295934325 / 2 ^ 55 * 0.96 ^ length [noHands, noHands]"
    by simp
  show ?thesis
    unfolding orbit_stalled o orbit_after_edgeLeft orbit_after_edgeLeft_idle
    using d n a b c by simp
qed

text \<open>
  C7, amended. The orbit is a double. On an update without an active hand it becomes the
  double nearest to the orbit times the double nearest to 0.96. Over updates none of
  which has an active hand, the orbit stays a double, its magnitude never increases,
  and when it starts non-zero it is never zero. Its magnitude strictly decreases on
  such an update while it is at least 13 times the smallest positive double. As long
  as the orbit after the updates is not below \<open>2 ^ -1021\<close>, its magnitude is the starting one
  times 0.96 to the number of updates, up to a factor between \<open>(1 - 2 ^ -53) ^ 2\<close> and
  \<open>1 + 2 ^ -53\<close> for each update. On an update with at least one active hand, the new
  orbit is the old one times 0.94 plus the average of the active hands' x-positions
  times 0.4 times 0.06, each operation rounded to a double.
\<close>

theorem orbit_dynamics:
  "(isDouble (cameraOrbit (appState s)) \<and>
    (\<forall>u \<in> set us. \<not> activeSample (fst u) \<and> \<not> activeSample (snd u)) \<longrightarrow>
      isDouble (cameraOrbit (appState (run s us))) \<and>
      \<bar>cameraOrbit (appState (run s us))\<bar> \<le> \<bar>cameraOrbit (appState s)\<bar> \<and>
      (cameraOrbit (appState s) \<noteq> 0 \<longrightarrow> cameraOrbit (appState (run s us)) \<noteq> 0) \<and>
      (2 powi (- 1021) \<le> \<bar>cameraOrbit (appState (run s us))\<bar> \<longrightarrow>
         \<bar>cameraOrbit (appState s)\<bar> * (0.96 * (1 - 2 powi (- 53))\<^sup>2) ^ length us
           \<le> \<bar>cameraOrbit (appState (run s us))\<bar> \<and>
         \<bar>cameraOrbit (appState (run s us))\<bar>
           \<le> \<bar>cameraOrbit (appState s)\<bar> * (0.96 * (1 + 2 powi (- 53))) ^ length us) \<and>
      (\<not> activeSample (fst v) \<and> \<not> activeSample (snd v) \<longrightarrow>
         cameraOrbit (appState (run s (us @ [v])))
           = dbl (cameraOrbit (appState (run s us)) * dbl 0.96) \<and>
         (13 * 2 powi (- 1074) \<le> \<bar>cameraOrbit (appState (run s us))\<bar> \<longrightarrow>
            \<bar>cameraOrbit (appState (run s (us @ [v])))\<bar>
              < \<bar>cameraOrbit (appState (run s us))\<bar>))) \<and>
   (activeSample (fst u) \<or> activeSample (snd u) \<longrightarrow>
      cameraOrbit (appState (handleHandUpdate s u)) =
        dbl (dbl (cameraOrbit (appState s) * dbl 0.94) +
             dbl (dbl (average (activeXs u) * dbl 0.4) * dbl 0.06)))"
proof (intro conjI impI)
  assume h: "isDouble (cameraOrbit (appState s)) \<and>
    (\<forall>u \<in> set us. \<not> activeSample (fst u) \<and> \<not> activeSample (snd u))"
  then have d: "isDouble (cameraOrbit (appState s))"
    and idle: "\<forall>u \<in> set us. \<not> activeSample (fst u) \<and> \<not> activeSample (snd u)" by simp_all
  note r = orbit_idle_run [OF d idle]
  show dr: "isDouble (cameraOrbit (appState (run s us)))" using r by simp
  show "\<bar>cameraOrbit (appState (run s us))\<bar> \<le> \<bar>cameraOrbit (appState s)\<bar>" using r by simp
  show "cameraOrbit (appState s) \<noteq> 0 \<Longrightarrow> cameraOrbit (appState (run s us)) \<noteq> 0" using r by simp
  {
    assume n: "2 powi (- 1021) \<le> \<bar>cameraOrbit (appState (run s us))\<bar>"
    show "\<bar>cameraOrbit (appState s)\<bar> * (0.96 * (1 - 2 powi (- 53))\<^sup>2) ^ length us
           \<le> \<bar>cameraOrbit (appState (run s us))\<bar>"
      using orbit_idle_rel [OF d idle n] by simp
    show "\<bar>cameraOrbit (appState (run s us))\<bar>
           \<le> \<bar>cameraOrbit (appState s)\<bar> * (0.96 * (1 + 2 powi (- 53))) ^ length us"
      using orbit_idle_rel [OF d idle n] by simp
  }
  assume v: "\<not> activeSample (fst v) \<and> \<not> activeSample (snd v)"
  then show e: "cameraOrbit (appState (run s (us @ [v])))
           = dbl (cameraOrbit (appState (run s us)) * dbl 0.96)"
    by (simp add: run_append hhu_orbit_idle)
  assume "13 * 2 powi (- 1074) \<le> \<bar>cameraOrbit (appState (run s us))\<bar>"
  then show "\<bar>cameraOrbit (appState (run s (us @ [v])))\<bar> < \<bar>cameraOrbit (appState (run s us))\<bar>"
    using idle_step(4) [OF dr] e by simp
next
  assume "activeSample (fst u) \<or> activeSample (snd u)"
  then show "cameraOrbit (appState (handleHandUpdate s u)) =
        dbl (dbl (cameraOrbit (appState s) * dbl 0.94) +
             dbl (dbl (average (activeXs u) * dbl 0.4) * dbl 0.06))"
    by (rule hhu_orbit_active)
qed

theorem orbit_dynamics_witness:
  "isDouble (cameraOrbit (appState (handleHandUpdate initialSession edgeLeft))) \<and>
   \<not> activeSample (fst noHands) \<and> \<not> activeSample (snd noHands) \<and>
   (activeSample (fst edgeLeft) \<or> activeSample (snd edgeLeft)) \<and>
   average (activeXs edgeLeft) = 17 / 4 \<and>
   cameraOrbit (appState (handleHandUpdate initialSession edgeLeft)) = 3674937295934325 / 2 ^ 55 \<and>
   cameraOrbit (appState (run (handleHandUpdate initialSession edgeLeft) [noHands]))
     = 440992475512119 / 2 ^ 52 \<and>
   (2::real) powi (- 1021) \<le> \<bar>440992475512119 / 2 ^ 52\<bar> \<and>
   13 * (2::real) powi (- 1074) \<le> \<bar>440992475512119 / 2 ^ 52\<bar> \<and>
   \<bar>3674937295934325 / 2 ^ 55\<bar> * (0.96 * (1 - 2 powi (- 53))\<^sup>2) ^ length [noHands]
     \<le> \<bar>440992475512119 / 2 ^ 52 :: real\<bar> \<and>
   \<bar>440992475512119 / 2 ^ 52 :: real\<bar>
     \<le> \<bar>3674937295934325 / 2 ^ 55\<bar> * (0.96 * (1 + 2 powi (- 53))) ^ length [noHands] \<and>
   cameraOrbit (appState (run (handleHandUpdate initialSession edgeLeft) ([noHands] @ [noHands])))
     = 1693411105966537 / 2 ^ 54 \<and>
   \<bar>1693411105966537 / 2 ^ 54 :: real\<bar> < \<bar>440992475512119 / 2 ^ 52\<bar>"
proof -
  let ?s = "handleHandUpdate initialSession edgeLeft"
  have d: "isDouble (cameraOrbit (appState ?s))" by (rule hhu_orbit_double)
  have n: "\<not> activeSample (fst noHands)" "\<not> activeSample (snd noHands)"
    by (simp_all add: noHands_def activeSample_def)
  have a: "activeSample (fst edgeLeft) \<or> activeSample (snd edgeLeft)"
    by (simp add: edgeLeft_def activeSample_def trackerSample_def)
  have avg: "average (activeXs edgeLeft) = 17 / 4"
    by (simp add: edgeLeft_def activeXs_def trackerSample_def average_def dbl_products(1))
  have h: "isDouble (cameraOrbit (appState ?s)) \<and>
      (\<forall>u \<in> set [noHands]. \<not> activeSample (fst u) \<and> \<not> activeSample (snd u))"
    using d n by simp
  have b: "(2::real) powi (- 1021) \<le> \<bar>440992475512119 / 2 ^ 52\<bar>"
    "13 * (2::real) powi (- 1074) \<le> \<bar>440992475512119 / 2 ^ 52\<bar>"
    by simp_all
  have two: "run ?s ([noHands] @ [noHands]) = run ?s [noHands, noHands]" by simp
  note t = orbit_dynamics [where s = ?s and us = "[noHands]" and v = noHands and u = edgeLeft,
             THEN conjunct1, THEN mp, OF h,
             unfolded orbit_after_edgeLeft orbit_after_edgeLeft_idle two]
  have c1: "\<bar>3674937295934325 / 2 ^ 55\<bar> * (0.96 * (1 - 2 powi (- 53))\<^sup>2) ^ length [noHands]
     \<le> \<bar>440992475512119 / 2 ^ 52 :: real\<bar>"
    and c2: "\<bar>440992475512119 / 2 ^ 52 :: real\<bar>
     \<le> \<bar>3674937295934325 / 2 ^ 55\<bar> * (0.96 * (1 + 2 powi (- 53))) ^ length [noHands]"
    and c3: "\<bar>1693411105966537 / 2 ^ 54 :: real\<bar> < \<bar>440992475512119 / 2 ^ 52\<bar>"
    using t b n by blast+
  show ?thesis
    unfolding two orbit_after_edgeLeft orbit_after_edgeLeft_idle
    using d [unfolded orbit_after_edgeLeft] n a avg b c1 c2 c3 by blast
qed

text \<open>
  C9, as the claim states it, fails: on a frame where the hand is inactive the rotation
  advances, the shimmer decays and the anchor moves toward the hand's position (the
  origin, for an absent hand).
\<close>

theorem inactive_frame_counterexample:
  "\<not> isActive (hand inactiveProps) \<and>
   rotationY (useFrame inactiveProps 0 0.1 movedMorph) = 0.04 \<and> rotationY movedMorph = 0 \<and>
   shimmerValue (useFrame inactiveProps 0 0.1 movedMorph) = 0.75 \<and>
   shimmerValue movedMorph = 1 \<and>
   pos_x (meshPosition (useFrame inactiveProps 0 0.1 movedMorph)) = 1.7 \<and>
   pos_x (meshPosition movedMorph) = 2"
  by (simp add: useFrame_def Let_def inactiveProps_def movedMorph_def initialMorph_def
                INITIAL_HAND_STATE_def lerpToward_def)

text \<open>
  C9, amended. On every frame where the hand is inactive, the particle system is marked
  invisible and the particle buffer (with its speeds and its dirty flag) is left as it
  is; the rotation still advances by 0.4 times the frame time, the anchor still moves
  15% of the way to the hand's position, and the shimmer is still updated.
\<close>

theorem inactive_frame_effect:
  "meshAttached st \<and> matAttached st \<and> \<not> isActive (hand props) \<longrightarrow>
     visible (useFrame props time delta st) = False \<and>
     pos (useFrame props time delta st) = pos st \<and>
     lerpSpeeds (useFrame props time delta st) = lerpSpeeds st \<and>
     needsUpdate (useFrame props time delta st) = needsUpdate st \<and>
     rotationY (useFrame props time delta st) = rotationY st + delta * 0.4 \<and>
     meshPosition (useFrame props time delta st) =
       \<lparr>pos_x = lerpToward (pos_x (meshPosition st)) (pos_x (position (hand props))) 0.15,
        pos_y = lerpToward (pos_y (meshPosition st)) (pos_y (position (hand props))) 0.15,
        pos_z = lerpToward (pos_z (meshPosition st)) (pos_z (position (hand props))) 0.15\<rparr> \<and>
     shimmerValue (useFrame props time delta st) =
       max 0 ((if isFist (hand props) \<and> \<not> prevIsFist st then 1 else shimmerValue st)
              - delta * 2.5)"
  by (simp add: useFrame_inactive)

theorem inactive_frame_effect_witness:
  "meshAttached movedMorph \<and> matAttached movedMorph \<and> \<not> isActive (hand inactiveProps) \<and>
   visible (useFrame inactiveProps 0 0.1 movedMorph) = False \<and>
   pos (useFrame inactiveProps 0 0.1 movedMorph) = replicate (PARTICLE_COUNT * 3) 0 \<and>
   rotationY (useFrame inactiveProps 0 0.1 movedMorph) = 0.04"
  using inactive_frame_effect [of movedMorph inactiveProps 0 "1 / 10"]
  by (simp add: inactiveProps_def movedMorph_def initialMorph_def INITIAL_HAND_STATE_def)

text \<open>
  C10. Shimmer invariant, over the reals and for frame times that are not negative.
  Every frame of a mounted hand, active or not, sets the shimmer to 1 when the hand's
  fist flag is true and the flag recorded on the previous frame is false, then subtracts
  2.5 times the frame time and clamps at 0, derives the point size and the opacity from
  it, and records the hand's fist flag for the next frame. So on the second of two
  frames the shimmer is set to 1 exactly when the fist flag has flipped from false to
  true between them. From the state before the first frame, after every frame the
  shimmer lies in [0, 1], the size in [0.014, 0.014 * 2.5] and the opacity in [0.85, 1].
  Over frames on none of which the flag flips to true, the shimmer is its starting
  value minus 2.5 times the time elapsed, clamped at 0: it is exactly 0 once that time
  reaches the starting value over 2.5.
\<close>

theorem shimmer_invariant:
  "(meshAttached st \<and> matAttached st \<longrightarrow>
      shimmerValue (useFrame props time delta st) =
        max 0 ((if isFist (hand props) \<and> \<not> prevIsFist st then 1 else shimmerValue st)
               - 2.5 * delta) \<and>
      prevIsFist (useFrame props time delta st) = isFist (hand props) \<and>
      shimmerValue (useFrame props' time' delta' (useFrame props time delta st)) =
        max 0 ((if isFist (hand props') \<and> \<not> isFist (hand props) then 1
                else shimmerValue (useFrame props time delta st))
               - 2.5 * delta') \<and>
      matSize (useFrame props time delta st) =
        0.014 * (1 + shimmerValue (useFrame props time delta st) * 1.5) \<and>
      matOpacity (useFrame props time delta st) =
        0.85 + shimmerValue (useFrame props time delta st) * 0.15) \<and>
   ((\<forall>f \<in> set fs. 0 \<le> snd (snd f)) \<longrightarrow>
      0 \<le> shimmerValue (frames fs (initialMorph speeds)) \<and>
      shimmerValue (frames fs (initialMorph speeds)) \<le> 1 \<and>
      0.014 \<le> matSize (frames fs (initialMorph speeds)) \<and>
      matSize (frames fs (initialMorph speeds)) \<le> 0.014 * 2.5 \<and>
      0.85 \<le> matOpacity (frames fs (initialMorph speeds)) \<and>
      matOpacity (frames fs (initialMorph speeds)) \<le> 1) \<and>
   (meshAttached st \<and> matAttached st \<and> 0 \<le> shimmerValue st \<and>
    (\<forall>f \<in> set fs. 0 \<le> snd (snd f)) \<and> \<not> fistFlips (prevIsFist st) fs \<longrightarrow>
      shimmerValue (frames fs st) =
        max 0 (shimmerValue st - 2.5 * sum_list (map (\<lambda>f. snd (snd f)) fs)) \<and>
      (shimmerValue st \<le> 2.5 * sum_list (map (\<lambda>f. snd (snd f)) fs) \<longrightarrow>
         shimmerValue (frames fs st) = 0))"
proof (intro conjI impI)
  assume a: "meshAttached st \<and> matAttached st"
  then show "shimmerValue (useFrame props time delta st) =
        max 0 ((if isFist (hand props) \<and> \<not> prevIsFist st then 1 else shimmerValue st)
               - 2.5 * delta)"
    by (simp add: useFrame_shimmer mult.commute)
  from a show p: "prevIsFist (useFrame props time delta st) = isFist (hand props)"
    by (simp add: useFrame_prevIsFist)
  from a have "meshAttached (useFrame props time delta st)"
    "matAttached (useFrame props time delta st)"
    by (simp_all add: useFrame_attached)
  then show "shimmerValue (useFrame props' time' delta' (useFrame props time delta st)) =
        max 0 ((if isFist (hand props') \<and> \<not> isFist (hand props) then 1
                else shimmerValue (useFrame props time delta st))
               - 2.5 * delta')"
    by (simp add: useFrame_shimmer [of "useFrame props time delta st"] p mult.commute)
  from a show "matSize (useFrame props time delta st) =
        0.014 * (1 + shimmerValue (useFrame props time delta st) * 1.5)"
    using useFrame_material [of st props time delta] by simp
  from a show "matOpacity (useFrame props time delta st) =
        0.85 + shimmerValue (useFrame props time delta st) * 0.15"
    using useFrame_material [of st props time delta] by simp
next
  assume d: "\<forall>f \<in> set fs. 0 \<le> snd (snd f)"
  let ?st = "frames fs (initialMorph speeds)"
  have i: "meshAttached (initialMorph speeds)" "matAttached (initialMorph speeds)"
    "0 \<le> shimmerValue (initialMorph speeds)" "shimmerValue (initialMorph speeds) \<le> 1"
    by (simp_all add: initialMorph_def)
  have m: "matSize (initialMorph speeds) = 0.014 * (1 + shimmerValue (initialMorph speeds) * 1.5)"
    "matOpacity (initialMorph speeds) = 0.85 + shimmerValue (initialMorph speeds) * 0.15"
    by (simp_all add: initialMorph_def)
  have b: "0 \<le> shimmerValue ?st \<and> shimmerValue ?st \<le> 1"
    using frames_shimmer_bounds [OF i d] by simp
  have e: "matSize ?st = 0.014 * (1 + shimmerValue ?st * 1.5)"
    "matOpacity ?st = 0.85 + shimmerValue ?st * 0.15"
    using frames_material [OF i(1,2) m, of fs] by simp_all
  show "0 \<le> shimmerValue ?st" "shimmerValue ?st \<le> 1" using b by simp_all
  show "0.014 \<le> matSize ?st" "matSize ?st \<le> 0.014 * 2.5"
    "0.85 \<le> matOpacity ?st" "matOpacity ?st \<le> 1"
    unfolding e using material_bounds [of "shimmerValue ?st"] b by simp_all
next
  assume h: "meshAttached st \<and> matAttached st \<and> 0 \<le> shimmerValue st \<and>
    (\<forall>f \<in> set fs. 0 \<le> snd (snd f)) \<and> \<not> fistFlips (prevIsFist st) fs"
  then show eq: "shimmerValue (frames fs st) =
        max 0 (shimmerValue st - 2.5 * sum_list (map (\<lambda>f. snd (snd f)) fs))"
    using frames_shimmer_decay [of st fs] by simp
  assume "shimmerValue st \<le> 2.5 * sum_list (map (\<lambda>f. snd (snd f)) fs)"
  then show "shimmerValue (frames fs st) = 0"
    unfolding eq by simp
qed

theorem shimmer_invariant_witness:
  "meshAttached (initialMorph []) \<and> matAttached (initialMorph []) \<and>
   (0::real) \<le> 0.1 \<and>
   shimmerValue (useFrame fistProps 0 0.1 (initialMorph [])) = 0.75 \<and>
   prevIsFist (useFrame fistProps 0 0.1 (initialMorph [])) = True \<and>
   isFist (hand fistProps) \<and> \<not> isFist (hand inactiveProps) \<and>
   shimmerValue (useFrame fistProps 0.1 0.1 (useFrame fistProps 0 0.1 (initialMorph []))) = 0.5 \<and>
   shimmerValue (frames [(fistProps, 0, 0.1), (fistProps, 0.1, 0.1)] (initialMorph [])) = 0.5 \<and>
   matSize (frames [(fistProps, 0, 0.1), (fistProps, 0.1, 0.1)] (initialMorph [])) = 0.0245 \<and>
   meshAttached (useFrame fistProps 0 0.1 (initialMorph [])) \<and>
   matAttached (useFrame fistProps 0 0.1 (initialMorph [])) \<and>
   prevIsFist (useFrame inactiveProps 0.1 0.1 (useFrame fistProps 0 0.1 (initialMorph []))) = False \<and>
   shimmerValue (useFrame fistProps 0.2 0.1
      (useFrame inactiveProps 0.1 0.1 (useFrame fistProps 0 0.1 (initialMorph [])))) = 0.75 \<and>
   0 \<le> shimmerValue (useFrame fistProps 0 0.1 (initialMorph [])) \<and>
   \<not> fistFlips (prevIsFist (useFrame fistProps 0 0.1 (initialMorph [])))
        [(fistProps, 0.1, 0.1), (inactiveProps, 0.2, 0.25)] \<and>
   shimmerValue (useFrame fistProps 0 0.1 (initialMorph []))
     \<le> 2.5 * sum_list (map (\<lambda>f. snd (snd f))
                          [(fistProps, 0.1, 0.1 :: real), (inactiveProps, 0.2, 0.25)]) \<and>
   shimmerValue (frames [(fistProps, 0.1, 0.1), (inactiveProps, 0.2, 0.25)]
      (useFrame fistProps 0 0.1 (initialMorph []))) = 0"
proof -
  let ?s0 = "initialMorph []"
  let ?s1 = "useFrame fistProps 0 0.1 ?s0"
  have a0: "meshAttached ?s0 \<and> matAttached ?s0" by (simp add: initialMorph_def)
  have a1: "meshAttached ?s1 \<and> matAttached ?s1" using a0 by (simp add: useFrame_attached)
  have v0: "shimmerValue ?s0 = 0" "prevIsFist ?s0 = False" by (simp_all add: initialMorph_def)
  have f: "isFist (hand fistProps)" "\<not> isFist (hand inactiveProps)"
    by (simp_all add: fistProps_def inactiveProps_def trackerSample_def INITIAL_HAND_STATE_def)
  note t0 = shimmer_invariant [where st = ?s0 and props = fistProps and time = 0
      and delta = "1 / 10" and props' = fistProps and time' = "1 / 10" and delta' = "1 / 10"
      and fs = "[(fistProps, 0, 1 / 10), (fistProps, 1 / 10, 1 / 10)]" and speeds = "[]"]
  have c1: "shimmerValue ?s1 = 0.75" "prevIsFist ?s1 = True"
    "shimmerValue (useFrame fistProps 0.1 0.1 ?s1) = 0.5"
    using t0 a0 v0 f by simp_all
  have c2: "shimmerValue (frames [(fistProps, 0, 0.1), (fistProps, 0.1, 0.1)] ?s0) = 0.5"
    using c1(3) by simp
  have c3: "matSize (frames [(fistProps, 0, 0.1), (fistProps, 0.1, 0.1)] ?s0) = 0.0245"
    using useFrame_material [of ?s1 fistProps "1 / 10" "1 / 10"] a1 c1(3) by simp
  note t1 = shimmer_invariant [where st = ?s1 and props = inactiveProps and time = "1 / 10"
      and delta = "1 / 10" and props' = fistProps and time' = "2 / 10" and delta' = "1 / 10"
      and fs = "[(fistProps, 1 / 10, 1 / 10), (inactiveProps, 2 / 10, 1 / 4)]" and speeds = "[]"]
  have c4: "prevIsFist (useFrame inactiveProps 0.1 0.1 ?s1) = False"
    "shimmerValue (useFrame fistProps 0.2 0.1 (useFrame inactiveProps 0.1 0.1 ?s1)) = 0.75"
    using t1 a1 f by simp_all
  have n: "\<not> fistFlips (prevIsFist ?s1) [(fistProps, 0.1, 0.1), (inactiveProps, 0.2, 0.25)]"
    using c1(2) f by simp
  have c5: "shimmerValue (frames [(fistProps, 0.1, 0.1), (inactiveProps, 0.2, 0.25)] ?s1) = 0"
    using t1 a1 c1(1) n by simp
  show ?thesis
    using a0 a1 c1 c2 c3 c4 c5 f n by simp
qed




end
